theory Spec2Isabelle
  imports Complex_Main "HOL-Library.AList"
begin

section \<open>Errors\<close>

text \<open>
  The exceptions of the Python source that the embedding keeps as values. A function
  that can raise returns \<open>py_error + 'a\<close>, with \<open>Inl\<close> for the exception.
\<close>

datatype py_error = ValueError | KeyError | RuntimeError | TypeError | AssertionError
  | IndexError | OSError | NotModelled

text \<open>
  \<open>NotModelled\<close> is not a Python exception: it marks an input on which the embedding
  does not follow the library (a tensor shape that torch would broadcast, a list of
  which \<^verbatim>\<open>np.array\<close> makes an array that is not described here). No theorem below is
  about such an input.

  Sequencing of calls that can raise: the first exception ends the computation.
\<close>

definition py_bind :: "py_error + 'a \<Rightarrow> ('a \<Rightarrow> py_error + 'b) \<Rightarrow> py_error + 'b" where
  "py_bind m f = (case m of Inl e \<Rightarrow> Inl e | Inr x \<Rightarrow> f x)"

section \<open>utils.py: iterate\_batches\<close>

text \<open>
  \<^verbatim>\<open>range(start, stop, step)\<close> for a positive step, as the list of its values: it has
  \<open>\<lceil>(stop - start) / step\<rceil>\<close> elements.
\<close>

definition py_range :: "nat \<Rightarrow> nat \<Rightarrow> nat \<Rightarrow> nat list" where
  "py_range start stop step =
     map (\<lambda>k. start + k * step) [0 ..< (stop - start + step - 1) div step]"

text \<open>\<^verbatim>\<open>xs[a:b]\<close> for indices \<open>0 \<le> a\<close>, \<open>0 \<le> b\<close>: Python clamps both to the length.\<close>

definition slice :: "'a list \<Rightarrow> nat \<Rightarrow> nat \<Rightarrow> 'a list" where
  "slice xs a b = take (b - a) (drop a xs)"

text \<open>
  The values that the lists given to \<open>iterate_batches\<close> hold: integers, floats,
  strings, and tuples of such values (the facts of this repository are tuples of
  strings).
\<close>

datatype py_val = PyInt int | PyFloat real | PyStr string | PyTuple "py_val list"

text \<open>
  \<^verbatim>\<open>np.array(inputs)\<close>, as the list of the entries of the array along its first axis.
  numpy chooses one element type for the whole array and converts every entry to it.
  The model covers these lists (on a 64-bit platform); any other list is \<open>NotModelled\<close>:
  \<^item> integers that all fit int64: an int64 array, the values unchanged;
  \<^item> integers between \<open>-2^63\<close> and \<open>2^64 - 1\<close>, of which one is negative and one does not
    fit int64: int64 and uint64 promote to float64, and every integer is converted to
    the nearest float64 (ties to the even mantissa);
  \<^item> floats: a float64 array, unchanged;
  \<^item> strings that do not end with the character NUL (numpy drops trailing NULs): a
    unicode array, unchanged;
  \<^item> tuples of such strings, all of one length of at least one: a two-dimensional
    unicode array, whose rows hold the strings of the tuples.
\<close>

function mantissa_shift :: "nat \<Rightarrow> nat" where
  "mantissa_shift n = (if n < 2 ^ 53 then 0 else Suc (mantissa_shift (n div 2)))"
  by pat_completeness auto
termination
  by (relation "measure (\<lambda>n. n)") auto

definition float64_of_nat :: "nat \<Rightarrow> nat" where
  "float64_of_nat n =
     (let k = mantissa_shift n; q = n div 2 ^ k; r = n mod 2 ^ k in
      (if 2 ^ k < 2 * r \<or> (2 * r = 2 ^ k \<and> odd q) then q + 1 else q) * 2 ^ k)"

definition float64_of_int :: "int \<Rightarrow> real" where
  "float64_of_int i =
     (if i < 0 then - real (float64_of_nat (nat (- i))) else real (float64_of_nat (nat i)))"

definition is_int64 :: "py_val \<Rightarrow> bool" where
  "is_int64 v = (case v of PyInt i \<Rightarrow> - (2 ^ 63) \<le> i \<and> i < 2 ^ 63 | _ \<Rightarrow> False)"

definition is_int_in :: "int \<Rightarrow> int \<Rightarrow> py_val \<Rightarrow> bool" where
  "is_int_in lo hi v = (case v of PyInt i \<Rightarrow> lo \<le> i \<and> i < hi | _ \<Rightarrow> False)"

definition is_float :: "py_val \<Rightarrow> bool" where
  "is_float v = (case v of PyFloat x \<Rightarrow> True | _ \<Rightarrow> False)"

definition is_plain_str :: "py_val \<Rightarrow> bool" where
  "is_plain_str v =
     (case v of PyStr s \<Rightarrow> s = [] \<or> last s \<noteq> CHR 0x00 | _ \<Rightarrow> False)"

definition is_str_tuple :: "nat \<Rightarrow> py_val \<Rightarrow> bool" where
  "is_str_tuple n v =
     (case v of PyTuple vs \<Rightarrow> length vs = n \<and> list_all is_plain_str vs | _ \<Rightarrow> False)"

definition to_float64 :: "py_val \<Rightarrow> py_val" where
  "to_float64 v = (case v of PyInt i \<Rightarrow> PyFloat (float64_of_int i) | _ \<Rightarrow> v)"

text \<open>The lists whose entries \<^verbatim>\<open>np.array\<close> keeps as they are.\<close>

definition numpy_keeps :: "py_val list \<Rightarrow> bool" where
  "numpy_keeps xs \<longleftrightarrow>
     list_all is_int64 xs \<or> list_all is_float xs \<or> list_all is_plain_str xs
     \<or> (case xs of
           PyTuple vs # _ \<Rightarrow> vs \<noteq> [] \<and> list_all (is_str_tuple (length vs)) xs
         | _ \<Rightarrow> False)"

definition np_array :: "py_val list \<Rightarrow> py_error + py_val list" where
  "np_array xs =
     (if numpy_keeps xs then Inr xs
      else if list_all (is_int_in (- (2 ^ 63)) (2 ^ 64)) xs
              \<and> list_ex (is_int_in (- (2 ^ 63)) 0) xs
              \<and> list_ex (is_int_in (2 ^ 63) (2 ^ 64)) xs
      then Inr (map to_float64 xs)
      else Inl NotModelled)"

text \<open>
  \<^verbatim>\<open>
  def iterate_batches(inputs, batch_size, shuffle=False):
      size = len(inputs)
      inputs = np.array(inputs)
      if shuffle:
          indices = np.arange(size)
          np.random.shuffle(indices)
      for start_idx in range(0, size, batch_size):
          end_idx = min(start_idx + batch_size, size)
          if shuffle:
              excerpt = indices[start_idx:end_idx]
          else:
              excerpt = slice(start_idx, end_idx)
          yield inputs[excerpt]
  \<close>
  The generator is modelled by the list of the batches it yields, a batch by the list
  of its entries. The argument \<open>shuffle\<close> is \<open>None\<close> for \<^verbatim>\<open>shuffle=False\<close> and
  \<open>Some indices\<close> for \<^verbatim>\<open>shuffle=True\<close>, where \<open>indices\<close> is the permutation of
  \<open>[0 ..< size]\<close> that \<^verbatim>\<open>np.random.shuffle\<close> left in place. The batches are taken from
  the array, not from the list. \<^verbatim>\<open>range\<close> raises ValueError for a zero step and is
  empty for a negative one.
\<close>

definition iterate_batches ::
  "py_val list \<Rightarrow> int \<Rightarrow> nat list option \<Rightarrow> py_error + py_val list list" where
  "iterate_batches inputs batch_size shuffle =
     (let size = length inputs in
      py_bind (np_array inputs) (\<lambda>inputs'.
      if batch_size = 0 then Inl ValueError
      else if batch_size < 0 then Inr []
      else Inr (map (\<lambda>start_idx.
                  let end_idx = min (start_idx + nat batch_size) size in
                  (case shuffle of
                     Some indices \<Rightarrow> map (\<lambda>i. inputs' ! i) (slice indices start_idx end_idx)
                   | None \<Rightarrow> slice inputs' start_idx end_idx))
                (py_range 0 size (nat batch_size)))))"

section \<open>create\_trigger.py: hotflip\_attack\<close>

text \<open>
  Tensors are lists: a vector is a list, a matrix the list of its rows. Floating-point
  entries are modelled by real numbers (no rounding, no NaN, no infinities).

  \<^verbatim>\<open>torch.matmul(matrix, vector)\<close>: one dot product per row; a row whose length is not
  the vector's raises RuntimeError.
\<close>

definition dot :: "real list \<Rightarrow> real list \<Rightarrow> real" where
  "dot xs ys = sum_list (map2 (*) xs ys)"

definition matmul :: "real list list \<Rightarrow> real list \<Rightarrow> py_error + real list" where
  "matmul m v =
     (if list_all (\<lambda>row. length row = length v) m then Inr (map (\<lambda>row. dot row v) m)
      else Inl RuntimeError)"

text \<open>
  The in-place \<^verbatim>\<open>a -= b\<close> on vectors: \<open>b\<close> has the length of \<open>a\<close>, or it has length
  one and is broadcast; any other length raises RuntimeError.
\<close>

definition isub :: "real list \<Rightarrow> real list \<Rightarrow> py_error + real list" where
  "isub a b =
     (if length b = length a then Inr (map2 (-) a b)
      else if length b = 1 then Inr (map (\<lambda>x. x - hd b) a)
      else Inl RuntimeError)"

text \<open>
  \<^verbatim>\<open>values.topk(k)\<close>, indices only: the positions of the \<open>k\<close> largest entries, largest
  first. torch raises RuntimeError when \<open>k\<close> is out of range. torch does not say which
  of several equal entries comes first; the model takes the lowest position first (a
  stable sort), and \<open>is_topk\<close> below states what every such choice satisfies.
\<close>

definition topk :: "real list \<Rightarrow> int \<Rightarrow> py_error + nat list" where
  "topk values k =
     (if k < 0 \<or> int (length values) < k then Inl RuntimeError
      else Inr (take (nat k) (sort_key (\<lambda>i. - (values ! i)) [0 ..< length values])))"

text \<open>
  \<^verbatim>\<open>
  def hotflip_attack(averaged_grad, embedding_matrix, increase_loss=False,
                     num_candidates=1, filter=None):
      with torch.no_grad():
          gradient_dot_embedding_matrix = torch.matmul(embedding_matrix, averaged_grad)
          if filter is not None:
              gradient_dot_embedding_matrix -= filter
          if not increase_loss:
              gradient_dot_embedding_matrix *= -1
          _, top_k_ids = gradient_dot_embedding_matrix.topk(num_candidates)
      return top_k_ids
  \<close>
\<close>

definition hotflip_attack ::
  "real list \<Rightarrow> real list list \<Rightarrow> bool \<Rightarrow> int \<Rightarrow> real list option \<Rightarrow> py_error + nat list" where
  "hotflip_attack averaged_grad embedding_matrix increase_loss num_candidates filter_opt =
     (case matmul embedding_matrix averaged_grad of
        Inl e \<Rightarrow> Inl e
      | Inr gradient_dot_embedding_matrix \<Rightarrow>
          (case (case filter_opt of
                   None \<Rightarrow> Inr gradient_dot_embedding_matrix
                 | Some flt \<Rightarrow> isub gradient_dot_embedding_matrix flt) of
             Inl e \<Rightarrow> Inl e
           | Inr filtered \<Rightarrow>
               topk (if \<not> increase_loss then map (\<lambda>x. x * (- 1)) filtered else filtered)
                 num_candidates))"

text \<open>
  The score vector the claim describes: each embedding row's dot product with the
  gradient, minus the filter entry, negated when \<open>increase_loss\<close> is false.
\<close>

definition hotflip_scores :: "real list \<Rightarrow> real list list \<Rightarrow> bool \<Rightarrow> real list \<Rightarrow> real list" where
  "hotflip_scores g E increase_loss flt =
     map (\<lambda>i. (if increase_loss then 1 else - 1) * (dot (E ! i) g - flt ! i)) [0 ..< length E]"

text \<open>
  What "the indices of the \<open>k\<close> largest entries" means, whatever the order among equal
  entries: \<open>k\<close> distinct positions of the vector, no entry outside them larger than one
  inside, listed by decreasing entry.
\<close>

definition is_topk :: "real list \<Rightarrow> nat \<Rightarrow> nat list \<Rightarrow> bool" where
  "is_topk values k ids \<longleftrightarrow>
     length ids = k \<and> distinct ids \<and> set ids \<subseteq> {..< length values}
     \<and> (\<forall>i \<in> set ids. \<forall>j < length values. j \<notin> set ids \<longrightarrow> values ! j \<le> values ! i)
     \<and> sorted_wrt (\<lambda>a b. values ! b \<le> values ! a) ids"


section \<open>Objects and the store\<close>

text \<open>
  \<open>replace_trigger_tokens\<close> and \<open>PredictWrapper.__call__\<close> copy, pop from and assign
  into dictionaries that hold references to tensors, so their model has an explicit
  store: a list of objects, an address being a position in it. A dictionary maps its
  keys to addresses, in insertion order. A new object is appended to the store.
\<close>

type_synonym addr = nat

datatype obj = Dict "(string \<times> addr) list" | IntTensor "int list list"
  | BoolTensor "bool list list"

type_synonym store = "obj list"

definition alloc :: "store \<Rightarrow> obj \<Rightarrow> addr \<times> store" where
  "alloc s v = (length s, s @ [v])"

text \<open>
  Reading an object as a dictionary or as a tensor. An object of another kind is a
  TypeError (Python raises TypeError or AttributeError on the first operation it does
  not support); the model gives the same answer for an address outside the store.
\<close>

definition get_dict :: "store \<Rightarrow> addr \<Rightarrow> py_error + (string \<times> addr) list" where
  "get_dict s a =
     (if a < length s then (case s ! a of Dict d \<Rightarrow> Inr d | _ \<Rightarrow> Inl TypeError)
      else Inl TypeError)"

definition get_ints :: "store \<Rightarrow> addr \<Rightarrow> py_error + int list list" where
  "get_ints s a =
     (if a < length s then (case s ! a of IntTensor t \<Rightarrow> Inr t | _ \<Rightarrow> Inl TypeError)
      else Inl TypeError)"

definition get_bools :: "store \<Rightarrow> addr \<Rightarrow> py_error + bool list list" where
  "get_bools s a =
     (if a < length s then (case s ! a of BoolTensor t \<Rightarrow> Inr t | _ \<Rightarrow> Inl TypeError)
      else Inl TypeError)"

text \<open>\<^verbatim>\<open>d.copy()\<close>: a new dictionary with the same keys and the same references.\<close>

definition dict_copy :: "store \<Rightarrow> addr \<Rightarrow> py_error + (addr \<times> store)" where
  "dict_copy s a = py_bind (get_dict s a) (\<lambda>d. Inr (alloc s (Dict d)))"

text \<open>\<^verbatim>\<open>d[k]\<close>, \<^verbatim>\<open>d.pop(k)\<close> and \<^verbatim>\<open>d[k] = v\<close>; the last two write the dictionary in place.\<close>

definition dict_getitem :: "store \<Rightarrow> addr \<Rightarrow> string \<Rightarrow> py_error + addr" where
  "dict_getitem s a k =
     py_bind (get_dict s a) (\<lambda>d. case map_of d k of None \<Rightarrow> Inl KeyError | Some v \<Rightarrow> Inr v)"

definition dict_pop :: "store \<Rightarrow> addr \<Rightarrow> string \<Rightarrow> py_error + (addr \<times> store)" where
  "dict_pop s a k =
     py_bind (get_dict s a) (\<lambda>d. case map_of d k of
        None \<Rightarrow> Inl KeyError
      | Some v \<Rightarrow> Inr (v, s[a := Dict (AList.delete k d)]))"

definition dict_setitem :: "store \<Rightarrow> addr \<Rightarrow> string \<Rightarrow> addr \<Rightarrow> py_error + store" where
  "dict_setitem s a k v =
     py_bind (get_dict s a) (\<lambda>d. Inr (s[a := Dict (AList.update k v d)]))"

section \<open>Tensor operations of torch\<close>

definition count_true :: "bool list \<Rightarrow> nat" where
  "count_true ms = length (filter (\<lambda>m. m) ms)"

text \<open>
  \<^verbatim>\<open>t.repeat(n, 1)\<close> on a matrix: its rows, \<open>n\<close> times over.
\<close>

definition repeat_rows :: "'a list list \<Rightarrow> nat \<Rightarrow> 'a list list" where
  "repeat_rows t n = concat (replicate n t)"

text \<open>
  \<^verbatim>\<open>input.masked_scatter(mask, source)\<close>: a copy of \<open>input\<close> in which the positions where
  \<open>mask\<close> is true, taken in row-major order, hold the elements of \<open>source\<close>, taken in
  row-major order. It raises RuntimeError when \<open>source\<close> has fewer elements than \<open>mask\<close>
  has true positions. \<open>scatter_fill\<close> fills one row from the elements still unused.
  The model covers a mask of the shape of \<open>input\<close>.
\<close>

fun scatter_fill :: "'a list \<Rightarrow> bool list \<Rightarrow> 'a list \<Rightarrow> 'a list" where
  "scatter_fill (x # xs) (m # ms) src =
     (if m then (case src of
                   [] \<Rightarrow> x # scatter_fill xs ms []
                 | v # rest \<Rightarrow> v # scatter_fill xs ms rest)
      else x # scatter_fill xs ms src)"
| "scatter_fill xs ms src = xs"

fun scatter_rows :: "'a list list \<Rightarrow> bool list list \<Rightarrow> 'a list \<Rightarrow> 'a list list" where
  "scatter_rows (r # rs) (m # ms) src =
     scatter_fill r m src # scatter_rows rs ms (drop (count_true m) src)"
| "scatter_rows rs ms src = rs"

definition same_shape :: "'a list list \<Rightarrow> 'b list list \<Rightarrow> bool" where
  "same_shape a b \<longleftrightarrow> map length a = map length b"

definition masked_scatter ::
  "'a list list \<Rightarrow> bool list list \<Rightarrow> 'a list list \<Rightarrow> py_error + 'a list list" where
  "masked_scatter input msk source =
     (if \<not> same_shape input msk then Inl NotModelled
      else if length (concat source) < count_true (concat msk) then Inl RuntimeError
      else Inr (scatter_rows input msk (concat source)))"

text \<open>
  \<^verbatim>\<open>logits.masked_select(mask.unsqueeze(-1))\<close> for logits of shape (batch, length,
  vocabulary) and a mask of shape (batch, length): the vocabulary vectors at the
  positions where the mask is true, in row-major order, as one flat vector.
\<close>

definition select_row :: "'a list list \<Rightarrow> bool list \<Rightarrow> 'a list" where
  "select_row row m = concat (map snd (filter fst (zip m row)))"

definition masked_select :: "'a list list list \<Rightarrow> bool list list \<Rightarrow> py_error + 'a list" where
  "masked_select logits msk =
     (if \<not> same_shape logits msk then Inl NotModelled
      else Inr (concat (map2 select_row logits msk)))"

text \<open>
  \<^verbatim>\<open>flat.view(b, -1)\<close>: \<open>b\<close> rows of equal length. torch raises RuntimeError when \<open>b\<close>
  is zero (the other dimension is then ambiguous or impossible) and when \<open>b\<close> does not
  divide the number of elements.
\<close>

definition view_rows :: "'a list \<Rightarrow> nat \<Rightarrow> py_error + 'a list list" where
  "view_rows flat b =
     (if b = 0 \<or> length flat mod b \<noteq> 0 then Inl RuntimeError
      else Inr (map (\<lambda>r. take (length flat div b) (drop (r * (length flat div b)) flat))
                  [0 ..< b]))"

section \<open>create\_trigger.py: replace\_trigger\_tokens and PredictWrapper\<close>

text \<open>
  \<^verbatim>\<open>
  def replace_trigger_tokens(model_inputs, trigger_ids, trigger_mask):
      out = model_inputs.copy()
      input_ids = model_inputs['input_ids']
      trigger_ids = trigger_ids.repeat(trigger_mask.size(0), 1)
      try:
          filled = input_ids.masked_scatter(trigger_mask, trigger_ids)
      except RuntimeError:
          filled = input_ids
      out['input_ids'] = filled
      return out
  \<close>
  The arguments are addresses. The repeated trigger and the filled tensor are new
  objects; when \<open>masked_scatter\<close> raises, \<open>filled\<close> is the caller's own tensor.
\<close>

definition replace_trigger_tokens ::
  "store \<Rightarrow> addr \<Rightarrow> addr \<Rightarrow> addr \<Rightarrow> py_error + (addr \<times> store)" where
  "replace_trigger_tokens s model_inputs trigger_ids trigger_mask =
     py_bind (dict_copy s model_inputs) (\<lambda>(out, s1).
     py_bind (dict_getitem s1 model_inputs ''input_ids'') (\<lambda>input_ids.
     py_bind (get_ints s1 trigger_ids) (\<lambda>trig.
     py_bind (get_bools s1 trigger_mask) (\<lambda>msk.
     let (trigger_ids', s2) = alloc s1 (IntTensor (repeat_rows trig (length msk))) in
     py_bind (get_ints s2 input_ids) (\<lambda>ids.
     py_bind (case masked_scatter ids msk (repeat_rows trig (length msk)) of
                Inr t \<Rightarrow> Inr (alloc s2 (IntTensor t))
              | Inl RuntimeError \<Rightarrow> Inr (input_ids, s2)
              | Inl e \<Rightarrow> Inl e) (\<lambda>(filled, s3).
     py_bind (dict_setitem s3 out ''input_ids'' filled) (\<lambda>s4.
     Inr (out, s4))))))))"

text \<open>The table \<open>LM_TYPE\<close> of the source (the entry for gpt2 is commented out there).\<close>

definition LM_TYPE :: "(string \<times> string) list" where
  "LM_TYPE =
     [(''roberta-base'', ''masked''),
      (''roberta-large'', ''masked''),
      (''allenai/longformer-base-4096'', ''masked''),
      (''allenai/longformer-large-4096'', ''masked''),
      (''distilroberta-base'', ''masked''),
      (''bert-base-cased'', ''masked''),
      (''bert-large-cased'', ''masked''),
      (''distilbert-base-cased'', ''masked''),
      (''gpt2-medium'', ''causal''),
      (''gpt2-large'', ''causal''),
      (''gpt2-xl'', ''causal''),
      (''xlnet-base-cased'', ''causal''),
      (''xlnet-large-cased'', ''causal''),
      (''facebook/bart-base'', ''masked''),
      (''facebook/bart-large'', ''masked''),
      (''t5-small'', ''seq2seq''),
      (''t5-base'', ''seq2seq''),
      (''t5-large'', ''seq2seq''),
      (''google/t5-v1_1-base'', ''seq2seq''),
      (''facebook/opt-350m'', ''causal''),
      (''facebook/opt-1.3b'', ''causal''),
      (''facebook/opt-6.7b'', ''causal''),
      (''facebook/opt-13b'', ''causal''),
      (''facebook/opt-30b'', ''causal''),
      (''facebook/opt-66b'', ''causal''),
      (''facebook/opt-iml-max-30b'', ''causal''),
      (''facebook/opt-iml-max-1.3b'', ''causal''),
      (''facebook/galactica-6.7b'', ''causal''),
      (''facebook/galactica-30b'', ''causal'')]"

text \<open>\<^verbatim>\<open>sub in s\<close> on strings.\<close>

fun py_in :: "string \<Rightarrow> string \<Rightarrow> bool" where
  "py_in sub [] = (sub = [])"
| "py_in sub (c # cs) = (take (length sub) (c # cs) = sub \<or> py_in sub cs)"

text \<open>
  The pretrained model is outside the repository. It is a parameter: its name and its
  forward pass, a function from the keyword arguments (the dictionary's keys with the
  tensors they refer to) to the logits, of shape (batch, length, vocabulary). The
  forward pass is taken to write nothing to the store.
\<close>

record hf_model =
  name_or_path :: string
  forward :: "(string \<times> obj) list \<Rightarrow> real list list list"

text \<open>
  \<^verbatim>\<open>
  def __call__(self, model_inputs, trigger_ids):
      # Copy dict so pop operations don't have unwanted side-effects
      model_inputs = model_inputs.copy()
      trigger_mask = model_inputs.pop('trigger_mask')
      predict_mask = model_inputs.pop('predict_mask')
      last_trigger_mask = model_inputs.pop('last_trigger_mask')
      if LM_TYPE[self._model.name_or_path]=='causal':
          predict_mask = last_trigger_mask # predict the last token for causal LMs
      model_inputs = replace_trigger_tokens(model_inputs, trigger_ids, trigger_mask)
      if 't5' in self._model.name_or_path:
          model_inputs['labels'] =  model_inputs['input_ids']
      output = self._model(**model_inputs)
      logits = output.logits
      predict_logits = logits.masked_select(predict_mask.unsqueeze(-1)).view(logits.size(0), -1)
      return predict_logits
  \<close>
\<close>

definition kwargs_of :: "store \<Rightarrow> (string \<times> addr) list \<Rightarrow> (string \<times> obj) list" where
  "kwargs_of s d = map (\<lambda>(k, a). (k, s ! a)) d"

definition PredictWrapper_call ::
  "hf_model \<Rightarrow> store \<Rightarrow> addr \<Rightarrow> addr \<Rightarrow> py_error + (real list list \<times> store)" where
  "PredictWrapper_call model s model_inputs trigger_ids =
     py_bind (dict_copy s model_inputs) (\<lambda>(model_inputs', s1).
     py_bind (dict_pop s1 model_inputs' ''trigger_mask'') (\<lambda>(trigger_mask, s2).
     py_bind (dict_pop s2 model_inputs' ''predict_mask'') (\<lambda>(predict_mask, s3).
     py_bind (dict_pop s3 model_inputs' ''last_trigger_mask'') (\<lambda>(last_trigger_mask, s4).
     py_bind (case map_of LM_TYPE (name_or_path model) of
                None \<Rightarrow> Inl KeyError | Some ty \<Rightarrow> Inr ty) (\<lambda>lm_type.
     let predict_mask' = (if lm_type = ''causal'' then last_trigger_mask else predict_mask) in
     py_bind (replace_trigger_tokens s4 model_inputs' trigger_ids trigger_mask) (\<lambda>(out, s5).
     py_bind (if py_in ''t5'' (name_or_path model)
              then py_bind (dict_getitem s5 out ''input_ids'')
                     (\<lambda>a. dict_setitem s5 out ''labels'' a)
              else Inr s5) (\<lambda>s6.
     py_bind (get_dict s6 out) (\<lambda>kwargs.
     let logits = forward model (kwargs_of s6 kwargs) in
     py_bind (get_bools s6 predict_mask') (\<lambda>msk.
     py_bind (masked_select logits msk) (\<lambda>flat.
     py_bind (view_rows flat (length logits)) (\<lambda>predict_logits.
     Inr (predict_logits, s6))))))))))))"


section \<open>create\_trigger.py: get\_loss and AccuracyFn\<close>

text \<open>
  \<^verbatim>\<open>
  def get_loss(predict_logits, label_ids):
      predict_logp = F.log_softmax(predict_logits, dim=-1)
      target_logp = predict_logp.gather(-1, label_ids)
      target_logp = target_logp - 1e32 * label_ids.eq(0)  # Apply mask
      target_logp = torch.logsumexp(target_logp, dim=-1)
      return -target_logp
  \<close>
  \<open>predict_logits\<close> has one row of logits per example, \<open>label_ids\<close> one row of token
  ids per example. Losses are real numbers, with one exception: the mask works by
  float32 arithmetic, and is modelled as float32 computes it.
  \<^item> \<^verbatim>\<open>target_logp - 1e32 * label_ids.eq(0)\<close>: at an id other than 0 nothing is
    subtracted. At the id 0 the result is the float \<^verbatim>\<open>-1e32\<close> whatever the
    log-probability, which is absorbed (the floats next to \<^verbatim>\<open>1e32\<close> are \<open>2^83\<close> apart).
    Such an entry is \<open>None\<close>.
  \<^item> \<^verbatim>\<open>torch.logsumexp\<close>: next to an entry that is not masked, the exponential of a
    masked entry underflows to 0, so that the masked entries add nothing to the sum. When
    every entry is masked the result is \<^verbatim>\<open>-1e32\<close> (the logarithm of the number of
    entries is absorbed too).

  This is what float32 computes as long as no log-probability comes near \<open>-2^82\<close>,
  which holds when every logit has an absolute value of at most \<open>10^24\<close>; a batch with a
  larger logit is \<open>NotModelled\<close>. \<open>row_loss\<close> is the loss of one example.
\<close>

definition log_softmax :: "real list \<Rightarrow> real list" where
  "log_softmax xs = map (\<lambda>x. x - ln (sum_list (map exp xs))) xs"

definition gather :: "real list \<Rightarrow> int list \<Rightarrow> real list" where
  "gather xs ids = map (\<lambda>i. xs ! nat i) ids"

definition apply_mask :: "real list \<Rightarrow> int list \<Rightarrow> real option list" where
  "apply_mask target_logp label_ids =
     map2 (\<lambda>x i. if i = 0 then None else Some x) target_logp label_ids"

definition logsumexp :: "real option list \<Rightarrow> real" where
  "logsumexp xs =
     (if list_all (\<lambda>x. x = None) xs then - (10 ^ 32)
      else ln (sum_list (map (\<lambda>x. case x of None \<Rightarrow> 0 | Some v \<Rightarrow> exp v) xs)))"

definition row_loss :: "real list \<Rightarrow> int list \<Rightarrow> real" where
  "row_loss logits ids =
     (let predict_logp = log_softmax logits;
          target_logp = gather predict_logp ids;
          target_logp = apply_mask target_logp ids
      in - logsumexp target_logp)"

text \<open>
  \<^verbatim>\<open>gather\<close> raises RuntimeError when the index has more rows than the input or holds
  an id outside the vocabulary. The result has one entry per row of \<open>label_ids\<close>. A row
  without ids has the loss \<open>+inf\<close>, which is not a real number: \<open>NotModelled\<close>.
\<close>

definition ids_in_range :: "real list \<Rightarrow> int list \<Rightarrow> bool" where
  "ids_in_range logits ids \<longleftrightarrow> list_all (\<lambda>i. 0 \<le> i \<and> i < int (length logits)) ids"

definition logits_in_range :: "real list \<Rightarrow> bool" where
  "logits_in_range logits \<longleftrightarrow> list_all (\<lambda>x. \<bar>x\<bar> \<le> 10 ^ 24) logits"

definition get_loss :: "real list list \<Rightarrow> int list list \<Rightarrow> py_error + real list" where
  "get_loss predict_logits label_ids =
     (if length predict_logits < length label_ids then Inl RuntimeError
      else if \<not> list_all (\<lambda>(logits, ids). ids_in_range logits ids) (zip predict_logits label_ids)
      then Inl RuntimeError
      else if \<not> list_all logits_in_range predict_logits then Inl NotModelled
      else if \<not> list_all (\<lambda>ids. ids \<noteq> []) label_ids then Inl NotModelled
      else Inr (map2 row_loss predict_logits label_ids))"

text \<open>The results of a list of calls; the first exception ends them.\<close>

fun collect :: "(py_error + 'a) list \<Rightarrow> py_error + 'a list" where
  "collect [] = Inr []"
| "collect (r # rs) = py_bind r (\<lambda>x. py_bind (collect rs) (\<lambda>xs. Inr (x # xs)))"

text \<open>
  \<^verbatim>\<open>
  class AccuracyFn:
      def __init__(self, tokenizer, label_map, device, tokenize_labels=False):
          self._all_label_ids = []
          self._pred_to_label = []
          for label, label_tokens in label_map.items():
              self._all_label_ids.append(utils.encode_label(tokenizer, label_tokens, tokenize_labels).to(device))
              self._pred_to_label.append(label)

      def __call__(self, predict_logits, gold_label_ids):
          # Get total log-probability for the true label
          gold_logp = get_loss(predict_logits, gold_label_ids)

          # Get total log-probability for all labels
          bsz = predict_logits.size(0)
          all_label_logp = []
          for label_ids in self._all_label_ids:
              label_logp = get_loss(predict_logits, label_ids.repeat(bsz, 1))
              all_label_logp.append(label_logp)
          all_label_logp = torch.stack(all_label_logp, dim=-1)
          _, predictions = all_label_logp.max(dim=-1)
          predictions = [self._pred_to_label[x] for x in predictions.tolist()]

          # Add up the number of entries where loss is greater than or equal to gold_logp.
          ge_count = all_label_logp.le(gold_logp.unsqueeze(-1)).sum(-1)
          correct = ge_count.le(1)  # less than in case of num. prec. issues

          return correct.float()
  \<close>
  The object holds one tensor of token ids per label of the label map (for a label of
  \<open>K\<close> tokens, a tensor of one row of \<open>K\<close> ids) and the labels' names.
  \<^verbatim>\<open>torch.stack\<close> raises RuntimeError on an empty list and on vectors of different
  lengths. \<open>predictions\<close> is computed and not used in the result; it is left out. The
  comparison with the gold losses is modelled for one gold loss per stacked row.
\<close>

record accuracy_fn =
  all_label_ids :: "int list list list"
  pred_to_label :: "string list"

definition AccuracyFn_call ::
  "accuracy_fn \<Rightarrow> real list list \<Rightarrow> int list list \<Rightarrow> py_error + real list" where
  "AccuracyFn_call self predict_logits gold_label_ids =
     py_bind (get_loss predict_logits gold_label_ids) (\<lambda>gold_logp.
     let bsz = length predict_logits in
     py_bind (collect (map (\<lambda>label_ids. get_loss predict_logits (repeat_rows label_ids bsz))
                         (all_label_ids self))) (\<lambda>all_label_logp.
     if all_label_logp = [] then Inl RuntimeError
     else if \<not> list_all (\<lambda>logp. length logp = length (hd all_label_logp)) all_label_logp
     then Inl RuntimeError
     else if length gold_logp \<noteq> length (hd all_label_logp) then Inl NotModelled
     else Inr (map (\<lambda>b.
                 let ge_count = length (filter (\<lambda>logp. logp ! b \<le> gold_logp ! b) all_label_logp)
                 in if ge_count \<le> 1 then 1 else 0)
               [0 ..< length gold_logp])))"


section \<open>create\_trigger.py: the search loop of run\_model\<close>

subsection \<open>GradientStorage\<close>

text \<open>
  \<^verbatim>\<open>
  class GradientStorage:
      def __init__(self, module):
          self._stored_gradient = None
          module.register_full_backward_hook(self.hook)
      def hook(self, module, grad_in, grad_out):
          self._stored_gradient = grad_out[0]
      def get(self):
          return self._stored_gradient
  \<close>
  A gradient is a tensor of shape (batch, length, embedding dimension).
\<close>

type_synonym gradient_storage = "real list list list option"

definition GradientStorage_init :: gradient_storage where
  "GradientStorage_init = None"

definition hook :: "gradient_storage \<Rightarrow> real list list list list \<Rightarrow> gradient_storage" where
  "hook self grad_out = Some (hd grad_out)"

definition get :: "gradient_storage \<Rightarrow> real list list list option" where
  "get self = self"

subsection \<open>What the loop is given\<close>

text \<open>
  The model, the tokenizer, the data and the command line are outside the loop; the
  loop sees them through these values (\<open>'b\<close> is the type of a collated batch):
  \<^item> \<open>eval_sum b t\<close>: \<^verbatim>\<open>evaluation_fn(predictor(model_inputs, t), labels).sum()\<close> on batch \<open>b\<close>;
  \<^item> \<open>labels_size b\<close>: \<^verbatim>\<open>labels.size(0)\<close>;
  \<^item> \<open>backward_grad b t\<close>: the gradient that the backward pass of
    \<^verbatim>\<open>get_loss(predictor(model_inputs, t), labels).mean()\<close> hands to the hook on the
    embedding module, as \<open>grad_out[0]\<close>;
  \<^item> \<open>trigger_mask_of b\<close>: \<^verbatim>\<open>model_inputs['trigger_mask']\<close>;
  \<^item> \<open>embedding_weight\<close>, \<open>filter_vec\<close>: \<^verbatim>\<open>embeddings.weight\<close> and the tensor \<^verbatim>\<open>filter\<close>;
  \<^item> \<open>mask_token_id\<close>: \<^verbatim>\<open>tokenizer.mask_token_id\<close>;
  \<^item> \<open>dev_metric_of t\<close>: the metric of one pass over the development set with the
    trigger \<open>t\<close> (the development loader does not shuffle);
  \<^item> \<open>accumulation_steps\<close>, \<open>num_cand\<close>, \<open>print_lama\<close>: the options of the command line;
    \<open>num_trigger_tokens\<close> is \<^verbatim>\<open>templatizer.num_trigger_tokens\<close>.
\<close>

record 'b env =
  eval_sum :: "'b \<Rightarrow> int list \<Rightarrow> real"
  labels_size :: "'b \<Rightarrow> nat"
  backward_grad :: "'b \<Rightarrow> int list \<Rightarrow> real list list list"
  trigger_mask_of :: "'b \<Rightarrow> bool list list"
  embedding_weight :: "real list list"
  filter_vec :: "real list"
  mask_token_id :: int
  dev_metric_of :: "int list \<Rightarrow> real"
  accumulation_steps :: int
  num_cand :: int
  num_trigger_tokens :: nat
  print_lama :: bool

text \<open>
  What one iteration draws at random: the batches that the two iterators over the
  shuffling training loader yield, and the number from which \<^verbatim>\<open>random.randrange\<close>
  takes its result.
\<close>

record 'b draw =
  grad_batches :: "'b list"
  eval_batches :: "'b list"
  rand :: nat

text \<open>\<^verbatim>\<open>random.randrange(n)\<close>: ValueError for \<open>n \<le> 0\<close>, else a number below \<open>n\<close>.\<close>

definition randrange :: "nat \<Rightarrow> nat \<Rightarrow> py_error + nat" where
  "randrange n r = (if n = 0 then Inl ValueError else Inr (r mod n))"

text \<open>A score is a float that can be \<^verbatim>\<open>float('-inf')\<close>.\<close>

datatype score = NegInf | Fin real

fun score_less :: "score \<Rightarrow> score \<Rightarrow> bool" where
  "score_less NegInf (Fin b) = True"
| "score_less (Fin a) (Fin b) = (a < b)"
| "score_less a NegInf = False"

subsection \<open>Gradient accumulation\<close>

text \<open>
  \<^verbatim>\<open>flat.view(bsz, n, emb_dim)\<close> and \<^verbatim>\<open>grad.sum(dim=0)\<close>, the in-place sum of two
  matrices and the division of a matrix by a number.
\<close>

definition view3 :: "'a list \<Rightarrow> nat \<Rightarrow> nat \<Rightarrow> nat \<Rightarrow> py_error + 'a list list list" where
  "view3 flat bsz n emb_dim =
     (if length flat \<noteq> bsz * n * emb_dim then Inl RuntimeError
      else Inr (map (\<lambda>b. map (\<lambda>t. take emb_dim (drop ((b * n + t) * emb_dim) flat)) [0 ..< n])
                  [0 ..< bsz]))"

definition sum_dim0 :: "real list list list \<Rightarrow> nat \<Rightarrow> nat \<Rightarrow> real list list" where
  "sum_dim0 g n emb_dim =
     map (\<lambda>t. map (\<lambda>e. sum_list (map (\<lambda>example. example ! t ! e) g)) [0 ..< emb_dim]) [0 ..< n]"

definition iadd :: "real list list \<Rightarrow> real list list \<Rightarrow> py_error + real list list" where
  "iadd a b = (if same_shape a b then Inr (map2 (map2 (+)) a b) else Inl RuntimeError)"

definition div_scalar :: "real list list \<Rightarrow> real \<Rightarrow> real list list" where
  "div_scalar a c = map (map (\<lambda>x. x / c)) a"

text \<open>The sizes \<^verbatim>\<open>bsz, _, emb_dim = grad.size()\<close>, read off the nested lists.\<close>

definition emb_dim_of :: "real list list list \<Rightarrow> nat" where
  "emb_dim_of grad =
     (case grad of [] \<Rightarrow> 0 | example # _ \<Rightarrow> (case example of [] \<Rightarrow> 0 | v # _ \<Rightarrow> length v))"

text \<open>
  \<^verbatim>\<open>
  pbar = tqdm(range(args.accumulation_steps))
  train_iter = iter(train_loader)
  averaged_grad = None
  for step in pbar:
      try:
          model_inputs, labels = next(train_iter)
      except:
          break
      model_inputs = {k: v.to(device) for k, v in model_inputs.items()}
      labels = labels.to(device)
      predict_logits = predictor(model_inputs, trigger_ids)
      loss = get_loss(predict_logits, labels).mean()
      loss.backward()
      grad = embedding_gradient.get()
      bsz, _, emb_dim = grad.size()
      selection_mask = model_inputs['trigger_mask'].unsqueeze(-1)
      grad = torch.masked_select(grad, selection_mask)
      grad = grad.view(bsz, templatizer.num_trigger_tokens, emb_dim)
      if averaged_grad is None:
          averaged_grad = grad.sum(dim=0) / args.accumulation_steps
      else:
          averaged_grad += grad.sum(dim=0) / args.accumulation_steps
  \<close>
  The first argument counts the steps that remain, the list holds the batches the
  iterator has not yet yielded.
\<close>

fun accumulate ::
  "'b env \<Rightarrow> int list \<Rightarrow> nat \<Rightarrow> 'b list \<Rightarrow> real list list option \<times> gradient_storage
     \<Rightarrow> py_error + (real list list option \<times> gradient_storage)" where
  "accumulate env trigger_ids 0 batches acc = Inr acc"
| "accumulate env trigger_ids (Suc steps) [] acc = Inr acc"
| "accumulate env trigger_ids (Suc steps) (batch # batches) (averaged_grad, embedding_gradient) =
     (let embedding_gradient' = hook embedding_gradient [backward_grad env batch trigger_ids] in
      case get embedding_gradient' of
        None \<Rightarrow> Inl TypeError
      | Some grad \<Rightarrow>
          py_bind (masked_select grad (trigger_mask_of env batch)) (\<lambda>flat.
          py_bind (view3 flat (length grad) (num_trigger_tokens env) (emb_dim_of grad)) (\<lambda>g.
          let term = div_scalar (sum_dim0 g (num_trigger_tokens env) (emb_dim_of grad))
                       (of_int (accumulation_steps env)) in
          py_bind (case averaged_grad of
                     None \<Rightarrow> Inr term
                   | Some a \<Rightarrow> iadd a term) (\<lambda>averaged_grad'.
          accumulate env trigger_ids steps batches (Some averaged_grad', embedding_gradient')))))"

subsection \<open>Re-scoring the candidates\<close>

text \<open>
  \<^verbatim>\<open>
  current_score = 0
  candidate_scores = torch.zeros(args.num_cand, device=device)
  denom = 0
  for step in pbar:
      try:
          model_inputs, labels = next(train_iter)
      except:
          break
      ...
      with torch.no_grad():
          predict_logits = predictor(model_inputs, trigger_ids)
          eval_metric = evaluation_fn(predict_logits, labels)
      current_score += eval_metric.sum()
      denom += labels.size(0)
      for i, candidate in enumerate(candidates):
          temp_trigger = trigger_ids.clone()
          temp_trigger[:, token_to_flip] = candidate
          with torch.no_grad():
              predict_logits = predictor(model_inputs, temp_trigger)
              eval_metric = evaluation_fn(predict_logits, labels)
          candidate_scores[i] += eval_metric.sum()
  \<close>
\<close>

definition score_candidates ::
  "'b env \<Rightarrow> int list \<Rightarrow> nat \<Rightarrow> nat list \<Rightarrow> 'b \<Rightarrow> real list \<Rightarrow> real list" where
  "score_candidates env trigger_ids token_to_flip candidates batch candidate_scores =
     fold (\<lambda>i scores.
             scores[i := scores ! i
                + eval_sum env batch (trigger_ids[token_to_flip := int (candidates ! i)])])
       [0 ..< length candidates] candidate_scores"

fun rescore ::
  "'b env \<Rightarrow> int list \<Rightarrow> nat \<Rightarrow> nat list \<Rightarrow> nat \<Rightarrow> 'b list \<Rightarrow> real \<times> real list \<times> nat
     \<Rightarrow> real \<times> real list \<times> nat" where
  "rescore env trigger_ids token_to_flip candidates 0 batches acc = acc"
| "rescore env trigger_ids token_to_flip candidates (Suc steps) [] acc = acc"
| "rescore env trigger_ids token_to_flip candidates (Suc steps) (batch # batches)
     (current_score, candidate_scores, denom) =
     rescore env trigger_ids token_to_flip candidates steps batches
       (current_score + eval_sum env batch trigger_ids,
        score_candidates env trigger_ids token_to_flip candidates batch candidate_scores,
        denom + labels_size env batch)"

text \<open>\<^verbatim>\<open>scores.argmax()\<close>: the first position of the largest entry.\<close>

fun argmax_from :: "real list \<Rightarrow> nat \<Rightarrow> nat \<Rightarrow> real \<Rightarrow> nat" where
  "argmax_from [] i best best_value = best"
| "argmax_from (x # xs) i best best_value =
     (if best_value < x then argmax_from xs (Suc i) i x
      else argmax_from xs (Suc i) best best_value)"

definition argmax :: "real list \<Rightarrow> nat" where
  "argmax xs = (case xs of [] \<Rightarrow> 0 | x # rest \<Rightarrow> argmax_from rest 1 0 x)"

subsection \<open>One iteration\<close>

text \<open>
  The state of the search: the trigger, the best trigger so far and its metric, the
  gradient storage, and the triggers for which the development set was evaluated, in
  order (the log of the evaluations).
\<close>

record search_state =
  st_trigger_ids :: "int list"
  st_best_trigger_ids :: "int list"
  st_best_dev_metric :: score
  st_embedding_gradient :: gradient_storage
  dev_evaluations :: "int list list"

text \<open>
  \<^verbatim>\<open>
  token_to_flip = random.randrange(templatizer.num_trigger_tokens)
  candidates = hotflip_attack(averaged_grad[token_to_flip], embeddings.weight,
                              increase_loss=False, num_candidates=args.num_cand,
                              filter=filter)
  ... (the re-scoring loop)
  if args.print_lama:
      if trigger_ids.eq(tokenizer.mask_token_id).any():
          current_score = float('-inf')
  if (candidate_scores > current_score).any():
      best_candidate_score = candidate_scores.max()
      best_candidate_idx = candidate_scores.argmax()
      trigger_ids[:, token_to_flip] = candidates[best_candidate_idx]
  else:
      continue
  ... (the evaluation on the development set, giving dev_metric)
  if args.print_lama:
      if best_trigger_ids.eq(tokenizer.mask_token_id).any():
          best_dev_metric = float('-inf')
  if dev_metric > best_dev_metric:
      best_trigger_ids = trigger_ids.clone()
      best_dev_metric = dev_metric
  \<close>
  \<^verbatim>\<open>averaged_grad[token_to_flip]\<close> raises TypeError when no batch was accumulated
  (\<open>averaged_grad\<close> is \<open>None\<close>), and IndexError outside the tensor. An assignment to a
  column outside the trigger raises IndexError; the model raises it before the
  re-scoring loop, Python at the first such assignment. In a run of the loop the column
  is always inside the trigger.
\<close>

definition effective_current_score :: "'b env \<Rightarrow> int list \<Rightarrow> real \<Rightarrow> score" where
  "effective_current_score env trigger current_score =
     (if print_lama env \<and> mask_token_id env \<in> set trigger then NegInf else Fin current_score)"

text \<open>
  The second half of the iteration, from the re-scoring loop on, for the candidates and
  the position that the first half has chosen.
\<close>

definition update_trigger ::
  "'b env \<Rightarrow> search_state \<Rightarrow> gradient_storage \<Rightarrow> 'b list \<Rightarrow> nat \<Rightarrow> nat list
     \<Rightarrow> py_error + search_state" where
  "update_trigger env st embedding_gradient' batches token_to_flip candidates =
     (if \<not> token_to_flip < length (st_trigger_ids st) then Inl IndexError
      else
       let (current_score, candidate_scores, denom) =
             rescore env (st_trigger_ids st) token_to_flip candidates
               (nat (accumulation_steps env)) batches
               (0, replicate (nat (num_cand env)) 0, 0);
           current_score' = effective_current_score env (st_trigger_ids st) current_score
       in
       if list_ex (\<lambda>c. score_less current_score' (Fin c)) candidate_scores then
         let best_candidate_idx = argmax candidate_scores;
             trigger_ids' = (st_trigger_ids st)[token_to_flip := int (candidates ! best_candidate_idx)];
             dev_metric = dev_metric_of env trigger_ids';
             best_dev_metric' =
               (if print_lama env \<and> mask_token_id env \<in> set (st_best_trigger_ids st)
                then NegInf else st_best_dev_metric st);
             better = score_less best_dev_metric' (Fin dev_metric)
         in Inr \<lparr>st_trigger_ids = trigger_ids',
                  st_best_trigger_ids = (if better then trigger_ids' else st_best_trigger_ids st),
                  st_best_dev_metric = (if better then Fin dev_metric else best_dev_metric'),
                  st_embedding_gradient = embedding_gradient',
                  dev_evaluations = dev_evaluations st @ [trigger_ids']\<rparr>
       else Inr (st\<lparr>st_embedding_gradient := embedding_gradient'\<rparr>))"

definition search_step ::
  "'b env \<Rightarrow> search_state \<Rightarrow> 'b draw \<Rightarrow> py_error + search_state" where
  "search_step env st d =
     py_bind (accumulate env (st_trigger_ids st) (nat (accumulation_steps env)) (grad_batches d)
                (None, st_embedding_gradient st)) (\<lambda>(averaged_grad, embedding_gradient').
     py_bind (randrange (num_trigger_tokens env) (rand d)) (\<lambda>token_to_flip.
     py_bind (case averaged_grad of
                None \<Rightarrow> Inl TypeError
              | Some g \<Rightarrow> if token_to_flip < length g then Inr (g ! token_to_flip)
                          else Inl IndexError) (\<lambda>grad_row.
     py_bind (hotflip_attack grad_row (embedding_weight env) False (num_cand env)
                (Some (filter_vec env))) (\<lambda>candidates.
     update_trigger env st embedding_gradient' (eval_batches d) token_to_flip candidates))))"

subsection \<open>The initial trigger and the whole loop\<close>

text \<open>
  \<^verbatim>\<open>
  assert args.num_trigger_tokens == templatizer.num_trigger_tokens
  if args.initial_trigger:
      trigger_ids = tokenizer.convert_tokens_to_ids(args.initial_trigger)
      assert len(trigger_ids) == templatizer.num_trigger_tokens
  else:
      trigger_ids = [tokenizer.mask_token_id] * templatizer.num_trigger_tokens
  trigger_ids = torch.tensor(trigger_ids, device=device).unsqueeze(0)
  best_trigger_ids = trigger_ids.clone()
  \<close>
  \<open>args_num_trigger_tokens\<close> is the option of the command line, \<open>initial_trigger\<close> the
  list of tokens of \<^verbatim>\<open>--initial-trigger\<close> (\<open>None\<close> when the option is absent), and
  \<open>convert_token_to_id\<close> the tokenizer's vocabulary.
\<close>

definition initial_trigger_ids ::
  "'b env \<Rightarrow> int \<Rightarrow> (string \<Rightarrow> int) \<Rightarrow> string list option \<Rightarrow> py_error + int list" where
  "initial_trigger_ids env args_num_trigger_tokens convert_token_to_id initial_trigger =
     (if args_num_trigger_tokens \<noteq> int (num_trigger_tokens env) then Inl AssertionError
      else if initial_trigger \<noteq> None \<and> initial_trigger \<noteq> Some [] then
        (let ids = map convert_token_to_id (the initial_trigger) in
         if length ids = num_trigger_tokens env then Inr ids else Inl AssertionError)
      else Inr (replicate (num_trigger_tokens env) (mask_token_id env)))"

text \<open>
  \<^verbatim>\<open>for i in range(args.iters)\<close>: one draw per iteration; an exception ends the run.
  Before the loop the development set is evaluated once with the initial trigger, and
  \<open>best_dev_metric\<close> starts at \<open>-inf\<close>.
\<close>

fun search_loop :: "'b env \<Rightarrow> search_state \<Rightarrow> 'b draw list \<Rightarrow> py_error + search_state" where
  "search_loop env st [] = Inr st"
| "search_loop env st (d # ds) = py_bind (search_step env st d) (\<lambda>st'. search_loop env st' ds)"

definition run_search ::
  "'b env \<Rightarrow> int \<Rightarrow> (string \<Rightarrow> int) \<Rightarrow> string list option \<Rightarrow> 'b draw list
     \<Rightarrow> py_error + search_state" where
  "run_search env args_num_trigger_tokens convert_token_to_id initial_trigger draws =
     py_bind (initial_trigger_ids env args_num_trigger_tokens convert_token_to_id initial_trigger)
       (\<lambda>ids. search_loop env
                 \<lparr>st_trigger_ids = ids, st_best_trigger_ids = ids, st_best_dev_metric = NegInf,
                    st_embedding_gradient = GradientStorage_init, dev_evaluations = [ids]\<rparr>
                 draws)"


subsection \<open>Notions used to state the properties of the accumulation\<close>

text \<open>
  The gradients of one batch at the trigger positions: for each example, the embedding
  gradients at the positions where its trigger mask is true, in order.
\<close>

definition trigger_position_grads ::
  "real list list list \<Rightarrow> bool list list \<Rightarrow> real list list list" where
  "trigger_position_grads grad msk =
     map2 (\<lambda>example m. map snd (filter fst (zip m example))) grad msk"

text \<open>
  A batch as the collator builds it for a template of \<open>n\<close> trigger tokens and a model of
  embedding dimension \<open>emb_dim\<close>: the gradient has the shape of the trigger mask, every
  example has \<open>n\<close> trigger positions, every gradient vector has \<open>emb_dim\<close> entries.
\<close>

definition batch_ok :: "'b env \<Rightarrow> int list \<Rightarrow> nat \<Rightarrow> 'b \<Rightarrow> bool" where
  "batch_ok env trigger emb_dim batch \<longleftrightarrow>
     (let grad = backward_grad env batch trigger; msk = trigger_mask_of env batch in
      same_shape grad msk
      \<and> emb_dim_of grad = emb_dim
      \<and> list_all (\<lambda>m. count_true m = num_trigger_tokens env) msk
      \<and> list_all (list_all (\<lambda>v. length v = emb_dim)) grad)"

text \<open>What one batch adds to \<open>averaged_grad\<close>.\<close>

definition grad_term :: "'b env \<Rightarrow> int list \<Rightarrow> 'b \<Rightarrow> real list list" where
  "grad_term env trigger batch =
     div_scalar
       (sum_dim0 (trigger_position_grads (backward_grad env batch trigger)
                    (trigger_mask_of env batch))
          (num_trigger_tokens env) (emb_dim_of (backward_grad env batch trigger)))
       (of_int (accumulation_steps env))"

definition has_shape :: "'a list list \<Rightarrow> nat \<Rightarrow> nat \<Rightarrow> bool" where
  "has_shape a n m \<longleftrightarrow> length a = n \<and> list_all (\<lambda>row. length row = m) a"


section \<open>create\_trigger.py: the output of --print-lama\<close>





text \<open>
  The values that \<^verbatim>\<open>json.dumps\<close> is given here. The encoder is outside the repository:
  it is a parameter.
\<close>

datatype json = JString string | JList "json list" | JObject "(string \<times> json) list"





text \<open>
  \<^verbatim>\<open>
  best_trigger_tokens = tokenizer.convert_ids_to_tokens(best_trigger_ids.squeeze(0))
  if args.print_lama:
      ... (the template is instantiated and decoded)
      if args.use_ctx:
          template = tokenizer.decode(lama_template.squeeze(0)[1:-1]).replace('[SEP] ', '').replace('</s> ', '').replace('[ X ]', '[X]')
      else:
          template = tokenizer.decode(lama_template.squeeze(0)[1:-1]).replace('[ X ]', '[X]')
          template = template.replace('X]', '[X]')
          template = template.replace('[[', '[')
      out = {
          'relation': args.train.parent.stem,
          'template': template,
          'tokens': best_trigger_tokens
      }
      out_json = json.dumps(out)
      print(out_json)
      name_suffix = args.model_name.split("/")[1] if "/" in args.model_name else args.model_name
      os.makedirs(args.output, exist_ok=True)
      result_file_name = "{}/{}_autoprompt_seed_{}.jsonl".format(args.output, name_suffix, args.seed)
      result_file = open(result_file_name,"a")
      result_file.write("{}\n".format(out_json))
      result_file.close()
  \<close>
  What the block is given: \<open>dumps\<close> is \<^verbatim>\<open>json.dumps\<close>; \<open>convert_id_to_token\<close> the
  tokenizer's vocabulary; \<open>decode_template ids\<close> the text that the tokenizer decodes
  from the template instantiated with the trigger \<open>ids\<close> (the templatizer, the two
  \<^verbatim>\<open>masked_scatter_\<close> and \<^verbatim>\<open>decode\<close>, any of which can raise); \<open>relation\<close> is
  \<^verbatim>\<open>args.train.parent.stem\<close>; the rest are options of the command line.
\<close>

record lama_args =
  dumps :: "json \<Rightarrow> string"
  convert_id_to_token :: "int \<Rightarrow> string"
  decode_template :: "int list \<Rightarrow> py_error + string"
  use_ctx :: bool
  relation :: string
  model_name :: string
  output_dir :: string
  seed :: int









section \<open>Properties of iterate\_batches\<close>

declare mantissa_shift.simps [simp del]

lemma concat_chunks_take:
  "concat (map (\<lambda>k. take b (drop (k * b) xs)) [0 ..< m]) = take (m * b) xs"
proof (induction m)
  case 0
  show ?case by simp
next
  case (Suc m)
  have "take (m * b) xs @ take b (drop (m * b) xs) = take (m * b + b) xs"
    by (simp add: take_add)
  with Suc show ?case by (simp add: add.commute)
qed

lemma slice_chunk:
  "slice xs (k * b) (min (k * b + b) (length xs)) = take b (drop (k * b) xs)"
  by (cases "k * b + b \<le> length xs") (simp_all add: slice_def min_def)

lemma chunk_count_covers:
  assumes "0 < (b::nat)"
  shows "n \<le> ((n + b - 1) div b) * b"
proof -
  have "n + b - 1 = ((n + b - 1) div b) * b + (n + b - 1) mod b"
    by simp
  moreover have "(n + b - 1) mod b < b"
    using assms by simp
  ultimately show ?thesis by linarith
qed

lemma chunk_count_tight:
  assumes "0 < (b::nat)" and "0 < n"
  shows "((n + b - 1) div b - 1) * b < n"
proof -
  have "((n + b - 1) div b) * b \<le> n + b - 1"
    by simp
  moreover have "0 < (n + b - 1) div b"
    using assms by (simp add: div_greater_zero_iff)
  ultimately have "((n + b - 1) div b - 1) * b + b \<le> n + b - 1"
    by (simp add: algebra_simps diff_mult_distrib)
  then show ?thesis using assms by linarith
qed

lemma np_array_length:
  "np_array inputs = Inr arr \<Longrightarrow> length arr = length inputs"
  by (auto simp: np_array_def split: if_splits)

lemma np_array_keeps:
  "numpy_keeps inputs \<Longrightarrow> np_array inputs = Inr inputs"
  by (simp add: np_array_def)

lemma iterate_batches_unshuffled:
  assumes "0 < batch_size" and "np_array inputs = Inr arr"
  shows "iterate_batches inputs batch_size None =
           Inr (map (\<lambda>k. take (nat batch_size) (drop (k * nat batch_size) arr))
                  [0 ..< (length arr + nat batch_size - 1) div nat batch_size])"
proof -
  have len: "length inputs = length arr"
    using assms(2) by (simp add: np_array_length)
  show ?thesis
    using assms(1)
    by (simp add: iterate_batches_def assms(2) len py_bind_def py_range_def Let_def comp_def slice_chunk)
qed

lemma mantissa_shift_V18: "mantissa_shift 9223372036854775809 = 11"
  by (simp add: mantissa_shift.simps)

lemma float64_of_nat_V18: "float64_of_nat 9223372036854775809 = 9223372036854775808"
  by (simp add: float64_of_nat_def mantissa_shift_V18)

lemma float64_of_nat_1: "float64_of_nat (Suc 0) = Suc 0"
  by (simp add: float64_of_nat_def mantissa_shift.simps)


text \<open>
  C9 (as amended). \<open>iterate_batches\<close> cuts the array \<^verbatim>\<open>np.array(inputs)\<close>, not the
  list. For a positive batch size and without shuffling: whenever the conversion returns an array,
  the call returns, the concatenation of its batches in order is that array, which has
  as many entries as the input, every batch but the last has exactly \<open>batch_size\<close>
  entries, the last one has the remaining entries (at least one, at most
  \<open>batch_size\<close>), and an empty input yields no batch at all. The conversion returns the
  input itself for a list that numpy keeps (\<open>numpy_keeps\<close>: integers that fit int64,
  floats, strings, tuples of strings of one length, as the facts of this repository
  are), so that there the batches partition the input.
\<close>

theorem iterate_batches_partition:
  "0 < batch_size \<Longrightarrow>
     (numpy_keeps inputs \<longrightarrow> np_array inputs = Inr inputs)
     \<and> (\<forall>arr. np_array inputs = Inr arr \<longrightarrow>
          (\<exists>bs. iterate_batches inputs batch_size None = Inr bs
             \<and> concat bs = arr
             \<and> length arr = length inputs
             \<and> (\<forall>k. Suc k < length bs \<longrightarrow> length (bs ! k) = nat batch_size)
             \<and> (bs \<noteq> [] \<longrightarrow>
                  length (last bs) = length inputs - (length bs - 1) * nat batch_size
                  \<and> 0 < length (last bs) \<and> length (last bs) \<le> nat batch_size)
             \<and> (inputs = [] \<longrightarrow> bs = [])))"
proof (intro conjI allI impI)
  assume "numpy_keeps inputs"
  then show "np_array inputs = Inr inputs" by (rule np_array_keeps)
next
  fix arr
  assume pos: "0 < batch_size" and arr: "np_array inputs = Inr arr"
  define b where "b = nat batch_size"
  define n where "n = length arr"
  define m where "m = (n + b - 1) div b"
  define bs where "bs = map (\<lambda>k. take b (drop (k * b) arr)) [0 ..< m]"
  have b_pos: "0 < b" using pos by (simp add: b_def)
  have n_in: "length arr = length inputs" using arr by (rule np_array_length)
  have run: "iterate_batches inputs batch_size None = Inr bs"
    using iterate_batches_unshuffled [OF pos arr]
    by (simp add: bs_def m_def n_def b_def)
  have len: "length bs = m" by (simp add: bs_def)
  have cover: "n \<le> m * b"
    unfolding m_def by (rule chunk_count_covers [OF b_pos])
  have cat: "concat bs = arr"
    using cover by (simp add: bs_def concat_chunks_take n_def)
  have tight: "(m - 1) * b < n" if "0 < n"
    unfolding m_def by (rule chunk_count_tight [OF b_pos that])
  have m_zero: "m = 0" if "n = 0"
    using that b_pos by (simp add: m_def)
  have n_pos: "0 < n" if "0 < m"
    using that m_zero by (cases "n = 0") simp_all
  have full: "\<forall>k. Suc k < length bs \<longrightarrow> length (bs ! k) = nat batch_size"
  proof (intro allI impI)
    fix k
    assume that: "Suc k < length bs"
    have k: "k < m" "Suc k \<le> m - 1" using that len by simp_all
    have "Suc k * b \<le> (m - 1) * b" using k(2) by (rule mult_le_mono1)
    also have "\<dots> < n" using tight n_pos k(1) by simp
    finally have "k * b + b \<le> n" by simp
    then show "length (bs ! k) = nat batch_size" using k(1) by (simp add: bs_def n_def b_def)
  qed
  have lastb: "bs \<noteq> [] \<longrightarrow>
      length (last bs) = length inputs - (length bs - 1) * nat batch_size
      \<and> 0 < length (last bs) \<and> length (last bs) \<le> nat batch_size"
  proof
    assume that: "bs \<noteq> []"
    have m_pos: "0 < m" using that len by (cases m) auto
    have "last bs = bs ! (m - 1)" using that len by (simp add: last_conv_nth)
    also have "\<dots> = take b (drop ((m - 1) * b) arr)"
      using m_pos by (simp add: bs_def)
    finally have eq: "last bs = take b (drop ((m - 1) * b) arr)" .
    have lt: "(m - 1) * b < n" using tight n_pos m_pos by simp
    have "m * b = (m - 1) * b + b" using m_pos by (cases m) simp_all
    then have le: "n - (m - 1) * b \<le> b" using cover by linarith
    have "length (last bs) = n - (length bs - 1) * b
      \<and> 0 < length (last bs) \<and> length (last bs) \<le> b"
      using lt le by (simp add: eq len n_def min_def)
    then show "length (last bs) = length inputs - (length bs - 1) * nat batch_size
      \<and> 0 < length (last bs) \<and> length (last bs) \<le> nat batch_size"
      unfolding n_def b_def n_in .
  qed
  have empty: "inputs = [] \<longrightarrow> bs = []"
    using m_zero n_in by (simp add: bs_def n_def)
  show "\<exists>bs. iterate_batches inputs batch_size None = Inr bs
             \<and> concat bs = arr
             \<and> length arr = length inputs
             \<and> (\<forall>k. Suc k < length bs \<longrightarrow> length (bs ! k) = nat batch_size)
             \<and> (bs \<noteq> [] \<longrightarrow>
                  length (last bs) = length inputs - (length bs - 1) * nat batch_size
                  \<and> 0 < length (last bs) \<and> length (last bs) \<le> nat batch_size)
             \<and> (inputs = [] \<longrightarrow> bs = [])"
    by (intro exI conjI) (rule run cat n_in full lastb empty)+
qed


text \<open>
  C9 as stated, for every input sequence, fails: in the list
  \<^verbatim>\<open>[2**63 + 1, -1]\<close> the first integer needs uint64 and the second int64, numpy
  makes a float64 array of them, and the batches hold \<^verbatim>\<open>9.223372036854775808e18\<close> and
  \<^verbatim>\<open>-1.0\<close>: their concatenation is not the input.
\<close>

theorem iterate_batches_coerces_integers:
  "iterate_batches [PyInt 9223372036854775809, PyInt (- 1)] 1 None
     = Inr [[PyFloat 9223372036854775808], [PyFloat (- 1)]]
   \<and> concat [[PyFloat 9223372036854775808], [PyFloat (- 1)]]
     \<noteq> [PyInt 9223372036854775809, PyInt (- 1)]"
  by (simp add: iterate_batches_def py_bind_def np_array_def numpy_keeps_def is_int64_def is_float_def
      is_plain_str_def is_int_in_def to_float64_def float64_of_int_def
      float64_of_nat_V18 float64_of_nat_1 py_range_def slice_def Let_def upt_rec)

theorem iterate_batches_partition_witness:
  "(0::int) < 2
   \<and> numpy_keeps [PyTuple [PyStr ''Paris'', PyStr ''France''],
        PyTuple [PyStr ''Rome'', PyStr ''Italy''], PyTuple [PyStr ''Bern'', PyStr ''Suisse'']]
   \<and> iterate_batches [PyTuple [PyStr ''Paris'', PyStr ''France''],
        PyTuple [PyStr ''Rome'', PyStr ''Italy''], PyTuple [PyStr ''Bern'', PyStr ''Suisse'']]
        2 None
     = Inr [[PyTuple [PyStr ''Paris'', PyStr ''France''], PyTuple [PyStr ''Rome'', PyStr ''Italy'']],
            [PyTuple [PyStr ''Bern'', PyStr ''Suisse'']]]"
proof -
  let ?xs = "[PyTuple [PyStr ''Paris'', PyStr ''France''],
        PyTuple [PyStr ''Rome'', PyStr ''Italy''], PyTuple [PyStr ''Bern'', PyStr ''Suisse'']]"
  have h: "(0::int) < 2" by simp
  have keeps: "numpy_keeps ?xs"
    by (simp add: numpy_keeps_def is_str_tuple_def is_plain_str_def)
  note t = iterate_batches_partition [OF h, of ?xs]
  have arr: "np_array ?xs = Inr ?xs"
    using t [THEN conjunct1] keeps by (rule mp)
  from t [THEN conjunct2, rule_format, OF arr]
  obtain bs where run: "iterate_batches ?xs 2 None = Inr bs" and "concat bs = ?xs"
    by (elim exE conjE) (rule that)
  have "iterate_batches ?xs 2 None
      = Inr [[PyTuple [PyStr ''Paris'', PyStr ''France''], PyTuple [PyStr ''Rome'', PyStr ''Italy'']],
            [PyTuple [PyStr ''Bern'', PyStr ''Suisse'']]]"
    by (simp add: iterate_batches_def arr py_bind_def py_range_def slice_def Let_def upt_rec)
  with h keeps show ?thesis by (intro conjI)
qed

section \<open>Properties of hotflip\_attack\<close>

lemma topk_is_topk:
  assumes "0 \<le> k" and "k \<le> int (length values)"
  shows "\<exists>ids. topk values k = Inr ids \<and> is_topk values (nat k) ids"
proof -
  define f where "f = (\<lambda>i. - (values ! i))"
  define L where "L = sort_key f [0 ..< length values]"
  define ids where "ids = take (nat k) L"
  have run: "topk values k = Inr ids"
    using assms by (simp add: topk_def ids_def L_def f_def)
  have setL: "set L = {..< length values}" by (auto simp: L_def)
  have lenL: "length L = length values" by (simp add: L_def)
  have distL: "distinct L" by (simp add: L_def)
  have sortL: "sorted (map f L)" by (simp add: L_def)
  have split: "L = ids @ drop (nat k) L" by (simp add: ids_def)
  have len: "length ids = nat k" using assms lenL by (simp add: ids_def)
  have dist: "distinct ids" using distL by (simp add: ids_def)
  have sub: "set ids \<subseteq> {..< length values}"
    using setL set_take_subset [of "nat k" L] by (auto simp: ids_def)
  have sorted_split: "sorted (map f ids @ map f (drop (nat k) L))"
    using sortL split by (metis map_append)
  have out: "values ! j \<le> values ! i"
    if "i \<in> set ids" "j < length values" "j \<notin> set ids" for i j
  proof -
    have "j \<in> set L" using that(2) setL by simp
    then have "j \<in> set (drop (nat k) L)" using that(3) split
      by (metis Un_iff set_append)
    then have "f i \<le> f j" using sorted_split that(1)
      by (auto simp: sorted_append)
    then show ?thesis by (simp add: f_def)
  qed
  have "sorted (map f ids)" using sorted_split by (simp add: sorted_append)
  then have desc: "sorted_wrt (\<lambda>a b. values ! b \<le> values ! a) ids"
    by (simp add: sorted_map f_def)
  show ?thesis
    using run len dist sub out desc by (auto simp: is_topk_def)
qed

lemma is_topk_excludes:
  assumes tk: "is_topk values k ids"
    and U: "U \<subseteq> {..< length values}" "k \<le> card U"
    and low: "\<forall>u \<in> U. values ! t < values ! u"
  shows "t \<notin> set ids"
proof
  assume t: "t \<in> set ids"
  have tU: "t \<notin> U" using low by auto
  have finU: "finite U" using U(1) finite_subset by blast
  have "\<not> U \<subseteq> set ids"
  proof
    assume "U \<subseteq> set ids"
    then have "U \<subseteq> set ids - {t}" using tU by auto
    then have "card U \<le> card (set ids - {t})" by (simp add: card_mono)
    also have "\<dots> < card (set ids)" using t by (intro card_Diff1_less) simp_all
    also have "\<dots> = k" using tk by (simp add: is_topk_def distinct_card)
    finally show False using U(2) by simp
  qed
  then obtain u where u: "u \<in> U" "u \<notin> set ids" by auto
  then have "u < length values" using U(1) by auto
  then have "values ! u \<le> values ! t" using tk t u(2) by (auto simp: is_topk_def)
  then show False using low u(1) by force
qed

lemma hotflip_attack_scores:
  assumes "list_all (\<lambda>row. length row = length g) E" and "length flt = length E"
  shows "hotflip_attack g E incr k (Some flt) = topk (hotflip_scores g E incr flt) k"
proof -
  have "map2 (-) (map (\<lambda>row. dot row g) E) flt = map (\<lambda>i. dot (E ! i) g - flt ! i) [0 ..< length E]"
    using assms(2) by (intro nth_equalityI) simp_all
  then show ?thesis
    using assms by (simp add: hotflip_attack_def matmul_def isub_def hotflip_scores_def comp_def)
qed

text \<open>
  C2. For a gradient vector, an embedding matrix and a filter vector of matching
  dimensions, and a number of candidates between zero and the vocabulary size,
  \<open>hotflip_attack\<close> returns the indices of the \<open>num_candidates\<close> largest entries of
  the score vector (each row's dot product with the gradient, minus the filter, negated
  when \<open>increase_loss\<close> is false). With \<open>increase_loss\<close> false, a token whose filter
  entry is \<open>- M\<close> is not among the candidates, as soon as at least \<open>num_candidates\<close>
  unfiltered tokens (filter entry zero) have a dot product less than \<open>M\<close> above the
  token's own.
\<close>

theorem hotflip_attack_top_candidates:
  assumes "list_all (\<lambda>row. length row = length g) E" and "length flt = length E"
    and "0 \<le> k" and "k \<le> int (length E)"
  shows "\<exists>ids. hotflip_attack g E increase_loss k (Some flt) = Inr ids
           \<and> is_topk (hotflip_scores g E increase_loss flt) (nat k) ids
           \<and> (\<not> increase_loss \<longrightarrow>
                (\<forall>t U M. t < length E \<and> U \<subseteq> {..< length E} \<and> nat k \<le> card U
                     \<and> flt ! t = - M
                     \<and> (\<forall>u \<in> U. flt ! u = 0 \<and> dot (E ! u) g - dot (E ! t) g < M)
                   \<longrightarrow> t \<notin> set ids))"
proof -
  let ?s = "hotflip_scores g E increase_loss flt"
  have len: "length ?s = length E" by (simp add: hotflip_scores_def)
  from topk_is_topk [of k ?s] assms(3,4) len
  obtain ids where ids: "topk ?s k = Inr ids" "is_topk ?s (nat k) ids" by auto
  have run: "hotflip_attack g E increase_loss k (Some flt) = Inr ids"
    using hotflip_attack_scores [OF assms(1,2)] ids(1) by simp
  have excl: "t \<notin> set ids"
    if "\<not> increase_loss" and t: "t < length E" and U: "U \<subseteq> {..< length E}" "nat k \<le> card U"
      and ft: "flt ! t = - M" and fu: "\<forall>u \<in> U. flt ! u = 0 \<and> dot (E ! u) g - dot (E ! t) g < M"
    for t U M
  proof (rule is_topk_excludes [OF ids(2)])
    show "U \<subseteq> {..< length ?s}" using U(1) len by simp
    show "nat k \<le> card U" by (rule U(2))
    show "\<forall>u \<in> U. ?s ! t < ?s ! u"
    proof
      fix u assume u: "u \<in> U"
      then have "u < length E" using U(1) by auto
      then show "?s ! t < ?s ! u"
        using t fu u ft that(1) by (simp add: hotflip_scores_def) force
    qed
  qed
  show ?thesis using run ids(2) excl by blast
qed

theorem hotflip_attack_top_candidates_witness:
  "hotflip_attack [1] [[1], [2], [3]] False 2 (Some [0, - 100, 0]) = Inr [0, 2]
   \<and> (1::nat) \<notin> set [0, 2]"
proof -
  let ?E = "[[1], [2], [3 :: real]]"
  let ?f = "[0, - 100, 0 :: real]"
  have pre: "list_all (\<lambda>row. length row = length [1 :: real]) ?E" "length ?f = length ?E"
    "(0::int) \<le> 2" "(2::int) \<le> int (length ?E)"
    by simp_all
  from hotflip_attack_top_candidates [OF pre, of False]
  obtain ids where ids: "hotflip_attack [1] ?E False 2 (Some ?f) = Inr ids"
    and far: "\<forall>t U M. t < length ?E \<and> U \<subseteq> {..< length ?E} \<and> nat 2 \<le> card U
                 \<and> ?f ! t = - M
                 \<and> (\<forall>u \<in> U. ?f ! u = 0 \<and> dot (?E ! u) [1] - dot (?E ! t) [1] < M)
               \<longrightarrow> t \<notin> set ids"
    by blast
  have val: "hotflip_attack [1] ?E False 2 (Some ?f) = Inr [0, 2]"
    by (simp add: hotflip_attack_def matmul_def isub_def topk_def dot_def upt_rec numeral_2_eq_2)
  have "(1::nat) \<notin> set ids"
  proof -
    have "1 < length ?E \<and> {0, 2} \<subseteq> {..< length ?E} \<and> nat 2 \<le> card {0, 2 :: nat}
        \<and> ?f ! 1 = - 100
        \<and> (\<forall>u \<in> {0, 2 :: nat}. ?f ! u = 0 \<and> dot (?E ! u) [1] - dot (?E ! 1) [1] < 100)"
      by (simp add: dot_def)
    with far show ?thesis by blast
  qed
  with ids val show ?thesis by simp
qed

section \<open>Properties of replace\_trigger\_tokens\<close>

lemma count_true_simps [simp]:
  "count_true [] = 0"
  "count_true (m # ms) = (if m then Suc (count_true ms) else count_true ms)"
  "count_true (xs @ ys) = count_true xs + count_true ys"
  by (simp_all add: count_true_def)

lemma count_true_le_length: "count_true ms \<le> length ms"
  by (simp add: count_true_def)

lemma length_scatter_fill [simp]: "length (scatter_fill xs ms src) = length xs"
  by (induction xs ms src rule: scatter_fill.induct) (auto split: list.splits)

lemma nth_scatter_fill:
  "length xs = length ms \<Longrightarrow> count_true ms \<le> length src \<Longrightarrow> p < length xs \<Longrightarrow>
     scatter_fill xs ms src ! p = (if ms ! p then src ! count_true (take p ms) else xs ! p)"
proof (induction xs ms src arbitrary: p rule: scatter_fill.induct)
  case (1 x xs m ms src)
  show ?case
  proof (cases p)
    case 0
    with "1.prems" show ?thesis by (cases src) auto
  next
    case (Suc q)
    show ?thesis
    proof (cases m)
      case True
      with "1.prems" obtain v rest where src: "src = v # rest" by (cases src) auto
      with True Suc "1.prems" "1.IH"(2) [OF True src, of q] show ?thesis by simp
    next
      case False
      with Suc "1.prems" "1.IH"(3) [OF False, of q] show ?thesis by simp
    qed
  qed
qed simp_all

lemma length_scatter_rows [simp]: "length (scatter_rows rs ms src) = length rs"
  by (induction rs ms src rule: scatter_rows.induct) auto

lemma same_shape_scatter_rows: "same_shape (scatter_rows rs ms src) rs"
  unfolding same_shape_def
  by (induction rs ms src rule: scatter_rows.induct) auto

lemma nth_scatter_rows:
  "map length rs = map length ms \<Longrightarrow> count_true (concat ms) \<le> length src \<Longrightarrow>
   r < length rs \<Longrightarrow> p < length (rs ! r) \<Longrightarrow>
     scatter_rows rs ms src ! r ! p =
       (if ms ! r ! p then src ! (count_true (concat (take r ms)) + count_true (take p (ms ! r)))
        else rs ! r ! p)"
proof (induction rs ms src arbitrary: r rule: scatter_rows.induct)
  case (1 row rs m ms src)
  show ?case
  proof (cases r)
    case 0
    with "1.prems" show ?thesis by (simp add: nth_scatter_fill)
  next
    case (Suc q)
    have "count_true (concat ms) \<le> length (drop (count_true m) src)"
      using "1.prems"(2) by simp
    moreover have "count_true m + (count_true (concat (take q ms)) + count_true (take p (ms ! q)))
        \<le> length src" if "ms ! q ! p"
    proof -
      have q: "q < length ms" using "1.prems"(1,3) Suc
        by (metis length_map list.sel(3) map_tl Suc_less_eq length_Cons)
      have p: "p < length (ms ! q)" using "1.prems"(1,3,4) Suc q
        by (metis length_Cons list.inject list.simps(9) nth_Cons_Suc nth_map Suc_less_eq)
      have "concat ms = concat (take q ms) @ ms ! q @ concat (drop (Suc q) ms)"
        using q by (metis append_take_drop_id concat.simps(2) concat_append Cons_nth_drop_Suc)
      moreover have "ms ! q = take p (ms ! q) @ drop p (ms ! q)" by simp
      ultimately have "count_true (concat (take q ms)) + count_true (take p (ms ! q)) \<le> count_true (concat ms)"
        by (metis count_true_simps(3) le_add1 add_le_mono1 add.assoc nat_add_left_cancel_le)
      then show ?thesis using "1.prems"(2) by simp
    qed
    ultimately show ?thesis
      using Suc "1.prems" "1.IH" [of q] by (auto simp: add.assoc)
  qed
qed simp_all

lemma nth_concat_replicate:
  "q < n * length t \<Longrightarrow> concat (replicate n t) ! q = t ! (q mod length t)"
proof (induction n arbitrary: q)
  case 0
  then show ?case by simp
next
  case (Suc n)
  show ?case
  proof (cases "q < length t")
    case True
    then show ?thesis by (simp add: nth_append)
  next
    case False
    then have "q - length t < n * length t" using Suc.prems by simp
    from Suc.IH [OF this] False show ?thesis
      by (simp add: nth_append le_mod_geq)
  qed
qed

lemma concat_repeat_rows_single:
  "concat (repeat_rows [t] n) = concat (replicate n t)"
  unfolding repeat_rows_def by (induction n) simp_all

lemma length_concat_replicate [simp]: "length (concat (replicate n t)) = n * length t"
  by (induction n) simp_all

lemma py_bind_simps [simp]:
  "py_bind (Inl e) f = Inl e"
  "py_bind (Inr x) f = f x"
  by (simp_all add: py_bind_def)

lemma get_dict_ok: "a < length s \<Longrightarrow> s ! a = Dict d \<Longrightarrow> get_dict s a = Inr d"
  by (simp add: get_dict_def)

lemma get_ints_ok: "a < length s \<Longrightarrow> s ! a = IntTensor t \<Longrightarrow> get_ints s a = Inr t"
  by (simp add: get_ints_def)

lemma get_bools_ok: "a < length s \<Longrightarrow> s ! a = BoolTensor t \<Longrightarrow> get_bools s a = Inr t"
  by (simp add: get_bools_def)

lemma length_concat_repeat_rows:
  "length (concat (repeat_rows t n)) = n * length (concat t)"
  unfolding repeat_rows_def by (induction n) simp_all

lemma replace_trigger_tokens_eq:
  assumes mi: "model_inputs < length s" "s ! model_inputs = Dict d"
    and ia: "map_of d ''input_ids'' = Some a" "a < length s" "s ! a = IntTensor ids"
    and tr: "trigger_ids < length s" "s ! trigger_ids = IntTensor trig"
    and tm: "trigger_mask < length s" "s ! trigger_mask = BoolTensor msk"
    and shape: "same_shape ids msk"
  shows "replace_trigger_tokens s model_inputs trigger_ids trigger_mask =
     (if count_true (concat msk) \<le> length msk * length (concat trig)
      then Inr (length s, s @ [Dict (AList.update ''input_ids'' (length s + 2) d),
                  IntTensor (repeat_rows trig (length msk)),
                  IntTensor (scatter_rows ids msk (concat (repeat_rows trig (length msk))))])
      else Inr (length s, s @ [Dict (AList.update ''input_ids'' a d),
                  IntTensor (repeat_rows trig (length msk))]))"
proof -
  let ?s1 = "s @ [Dict d]"
  let ?src = "repeat_rows trig (length msk)"
  let ?s2 = "?s1 @ [IntTensor ?src]"
  have c: "dict_copy s model_inputs = Inr (length s, ?s1)"
    using mi by (simp add: dict_copy_def get_dict_ok alloc_def)
  have g: "dict_getitem ?s1 model_inputs ''input_ids'' = Inr a"
    using mi ia(1) by (simp add: dict_getitem_def get_dict_def nth_append)
  have t: "get_ints ?s1 trigger_ids = Inr trig"
    using tr by (simp add: get_ints_def nth_append)
  have m: "get_bools ?s1 trigger_mask = Inr msk"
    using tm by (simp add: get_bools_def nth_append)
  have al: "alloc ?s1 (IntTensor ?src) = (length s + 1, ?s2)"
    by (simp add: alloc_def)
  have i: "get_ints ?s2 a = Inr ids"
    using ia(2,3) by (simp add: get_ints_def nth_append)
  have set: "dict_setitem ((?s1 @ xs) @ ys) (length s) ''input_ids'' fa
      = Inr (s @ Dict (AList.update ''input_ids'' fa d) # xs @ ys)" for xs ys fa
    by (simp add: dict_setitem_def get_dict_def nth_append list_update_append)
  show ?thesis
  proof (cases "count_true (concat msk) \<le> length msk * length (concat trig)")
    case True
    then have ms: "masked_scatter ids msk ?src = Inr (scatter_rows ids msk (concat ?src))"
      using shape by (simp add: masked_scatter_def length_concat_repeat_rows)
    show ?thesis
      using True
      by (simp add: replace_trigger_tokens_def c g t m al i ms alloc_def set
          del: append_assoc append.simps)
  next
    case False
    then have ms: "masked_scatter ids msk ?src = Inl RuntimeError"
      using shape by (simp add: masked_scatter_def length_concat_repeat_rows)
    show ?thesis
      using False
      using set [of "[IntTensor ?src]" "[]"]
      by (simp add: replace_trigger_tokens_def c g t m al i ms
          del: append_assoc append.simps)
  qed
qed

lemma count_true_before_less:
  assumes "r < length ms" and "p < length (ms ! r)" and "ms ! r ! p"
  shows "count_true (concat (take r ms)) + count_true (take p (ms ! r)) < count_true (concat ms)"
proof -
  have "ms = take r ms @ ms ! r # drop (Suc r) ms"
    using assms(1) by (simp add: id_take_nth_drop)
  then have "concat ms = concat (take r ms) @ ms ! r @ concat (drop (Suc r) ms)"
    by (metis concat.simps(2) concat_append)
  moreover have "ms ! r = take p (ms ! r) @ ms ! r ! p # drop (Suc p) (ms ! r)"
    using assms(2) by (simp add: id_take_nth_drop)
  then have "count_true (ms ! r) = count_true (take p (ms ! r)) + count_true (ms ! r ! p # drop (Suc p) (ms ! r))"
    by (metis count_true_simps(3))
  ultimately show ?thesis using assms(3) by simp
qed

lemma count_true_take_less:
  assumes "p < length m" and "m ! p"
  shows "count_true (take p m) < count_true m"
proof -
  have "m = take p m @ m ! p # drop (Suc p) m"
    using assms(1) by (simp add: id_take_nth_drop)
  then have "count_true m = count_true (take p m) + count_true (m ! p # drop (Suc p) m)"
    by (metis count_true_simps(3))
  then show ?thesis using assms(2) by simp
qed

lemma count_true_concat_uniform:
  "\<forall>m \<in> set ms. count_true m = T \<Longrightarrow> count_true (concat ms) = length ms * T"
  by (induction ms) simp_all

lemma same_shape_nth:
  "same_shape a b \<Longrightarrow> length a = length b \<and> (\<forall>r < length a. length (a ! r) = length (b ! r))"
  unfolding same_shape_def by (metis length_map nth_map)

lemma scatter_repeated_nth:
  assumes shape: "same_shape ids msk"
    and fits: "count_true (concat msk) \<le> length msk * length trig"
    and r: "r < length ids" and p: "p < length (ids ! r)"
  shows "scatter_rows ids msk (concat (repeat_rows [trig] (length msk))) ! r ! p =
           (if msk ! r ! p
            then trig ! ((count_true (concat (take r msk)) + count_true (take p (msk ! r)))
                          mod length trig)
            else ids ! r ! p)"
proof -
  let ?src = "concat (repeat_rows [trig] (length msk))"
  have src: "?src = concat (replicate (length msk) trig)" by (rule concat_repeat_rows_single)
  have sh: "map length ids = map length msk" using shape by (simp add: same_shape_def)
  have rm: "r < length msk" "p < length (msk ! r)"
    using same_shape_nth [OF shape] r p by auto
  have "scatter_rows ids msk ?src ! r ! p =
      (if msk ! r ! p then ?src ! (count_true (concat (take r msk)) + count_true (take p (msk ! r)))
       else ids ! r ! p)"
    using fits by (intro nth_scatter_rows [OF sh _ r p]) (simp add: src)
  moreover have "?src ! (count_true (concat (take r msk)) + count_true (take p (msk ! r)))
      = trig ! ((count_true (concat (take r msk)) + count_true (take p (msk ! r))) mod length trig)"
    if "msk ! r ! p"
  proof -
    have "count_true (concat (take r msk)) + count_true (take p (msk ! r)) < length msk * length trig"
      using count_true_before_less [OF rm that] fits by simp
    then show ?thesis unfolding src by (rule nth_concat_replicate)
  qed
  ultimately show ?thesis by simp
qed

text \<open>
  C3 (as amended). Let the dictionary hold \<open>input_ids\<close>, let the trigger be one row of
  ids and the mask a boolean tensor of the shape of \<open>input_ids\<close>. Then
  \<open>replace_trigger_tokens\<close> returns a new dictionary whose entries other than
  \<open>input_ids\<close> are the input's (the same references, to unchanged objects). When the
  mask has at most (rows \<open>\<times>\<close> trigger length) true positions, \<open>input_ids\<close> holds, at
  the \<open>k\<close>-th true position in row-major order, the trigger id number
  \<open>k mod\<close> (trigger length), and the original id at every other position; when every
  row of the mask has exactly as many true positions as the trigger has ids, each row
  holds the trigger ids in order at its true positions. When the mask has more true
  positions, \<open>masked_scatter\<close> raises, the exception is caught, and \<open>input_ids\<close> is
  returned as it was.
\<close>

theorem replace_trigger_tokens_fills:
  assumes mi: "model_inputs < length s" "s ! model_inputs = Dict d"
    and ia: "map_of d ''input_ids'' = Some a" "a < length s" "s ! a = IntTensor ids"
    and tr: "trigger_ids < length s" "s ! trigger_ids = IntTensor [trig]"
    and tm: "trigger_mask < length s" "s ! trigger_mask = BoolTensor msk"
    and shape: "same_shape ids msk"
  shows "\<exists>out s' d' a' filled.
      replace_trigger_tokens s model_inputs trigger_ids trigger_mask = Inr (out, s')
    \<and> out < length s' \<and> s' ! out = Dict d'
    \<and> map_of d' ''input_ids'' = Some a' \<and> a' < length s' \<and> s' ! a' = IntTensor filled
    \<and> (\<forall>k. k \<noteq> ''input_ids'' \<longrightarrow> map_of d' k = map_of d k)
    \<and> take (length s) s' = s
    \<and> same_shape filled ids
    \<and> (if count_true (concat msk) \<le> length msk * length trig
       then (\<forall>r p. r < length ids \<and> p < length (ids ! r) \<longrightarrow>
               filled ! r ! p =
                 (if msk ! r ! p
                  then trig ! ((count_true (concat (take r msk)) + count_true (take p (msk ! r)))
                                mod length trig)
                  else ids ! r ! p))
       else filled = ids)
    \<and> ((\<forall>r < length msk. count_true (msk ! r) = length trig) \<longrightarrow>
         (\<forall>r p. r < length ids \<and> p < length (ids ! r) \<longrightarrow>
               filled ! r ! p =
                 (if msk ! r ! p then trig ! count_true (take p (msk ! r)) else ids ! r ! p)))"
proof (cases "count_true (concat msk) \<le> length msk * length trig")
  case True
  let ?src = "repeat_rows [trig] (length msk)"
  let ?filled = "scatter_rows ids msk (concat ?src)"
  let ?d' = "AList.update ''input_ids'' (length s + 2) d"
  let ?s' = "s @ [Dict ?d', IntTensor ?src, IntTensor ?filled]"
  have run: "replace_trigger_tokens s model_inputs trigger_ids trigger_mask = Inr (length s, ?s')"
    using replace_trigger_tokens_eq [OF mi ia tr tm shape] True by simp
  have cells: "\<forall>r p. r < length ids \<and> p < length (ids ! r) \<longrightarrow>
      ?filled ! r ! p =
        (if msk ! r ! p
         then trig ! ((count_true (concat (take r msk)) + count_true (take p (msk ! r)))
                       mod length trig)
         else ids ! r ! p)"
    using scatter_repeated_nth [OF shape True] by blast
  have rows: "?filled ! r ! p =
        (if msk ! r ! p then trig ! count_true (take p (msk ! r)) else ids ! r ! p)"
    if uni: "\<forall>r < length msk. count_true (msk ! r) = length trig"
      and r: "r < length ids" and p: "p < length (ids ! r)" for r p
  proof (cases "msk ! r ! p")
    case False
    with cells r p show ?thesis by simp
  next
    case hit: True
    have rm: "r < length msk" "p < length (msk ! r)"
      using same_shape_nth [OF shape] r p by auto
    have "\<forall>m \<in> set (take r msk). count_true m = length trig"
      using uni by (metis in_set_conv_nth in_set_takeD)
    then have "count_true (concat (take r msk)) = length (take r msk) * length trig"
      by (rule count_true_concat_uniform)
    then have before: "count_true (concat (take r msk)) = r * length trig"
      using rm(1) by simp
    have "count_true (take p (msk ! r)) < length trig"
      using count_true_take_less [OF rm(2) hit] uni rm(1) by simp
    then have "(count_true (concat (take r msk)) + count_true (take p (msk ! r))) mod length trig
        = count_true (take p (msk ! r))"
      by (simp add: before)
    with cells r p hit show ?thesis by simp
  qed
  have ifc: "if count_true (concat msk) \<le> length msk * length trig
       then (\<forall>r p. r < length ids \<and> p < length (ids ! r) \<longrightarrow>
               ?filled ! r ! p =
                 (if msk ! r ! p
                  then trig ! ((count_true (concat (take r msk)) + count_true (take p (msk ! r)))
                                mod length trig)
                  else ids ! r ! p))
       else ?filled = ids"
    using True cells by simp
  have uni: "(\<forall>r < length msk. count_true (msk ! r) = length trig) \<longrightarrow>
         (\<forall>r p. r < length ids \<and> p < length (ids ! r) \<longrightarrow>
               ?filled ! r ! p =
                 (if msk ! r ! p then trig ! count_true (take p (msk ! r)) else ids ! r ! p))"
    using rows by simp
  have f: "length s < length ?s'" "?s' ! length s = Dict ?d'"
    "map_of ?d' ''input_ids'' = Some (length s + 2)" "length s + 2 < length ?s'"
    "?s' ! (length s + 2) = IntTensor ?filled"
    "\<forall>k. k \<noteq> ''input_ids'' \<longrightarrow> map_of ?d' k = map_of d k"
    "take (length s) ?s' = s" "same_shape ?filled ids"
    by (simp_all add: update_conv' nth_append same_shape_scatter_rows)
  show ?thesis
    by (intro exI conjI) (rule run f ifc uni)+
next
  case False
  let ?src = "repeat_rows [trig] (length msk)"
  let ?d' = "AList.update ''input_ids'' a d"
  let ?s' = "s @ [Dict ?d', IntTensor ?src]"
  have run: "replace_trigger_tokens s model_inputs trigger_ids trigger_mask = Inr (length s, ?s')"
    using replace_trigger_tokens_eq [OF mi ia tr tm shape] False by simp
  have not_uni: "\<not> (\<forall>r < length msk. count_true (msk ! r) = length trig)"
  proof
    assume "\<forall>r < length msk. count_true (msk ! r) = length trig"
    then have "\<forall>m \<in> set msk. count_true m = length trig"
      by (metis in_set_conv_nth)
    then have "count_true (concat msk) = length msk * length trig"
      by (rule count_true_concat_uniform)
    with False show False by simp
  qed
  have ifc: "if count_true (concat msk) \<le> length msk * length trig
       then (\<forall>r p. r < length ids \<and> p < length (ids ! r) \<longrightarrow>
               ids ! r ! p =
                 (if msk ! r ! p
                  then trig ! ((count_true (concat (take r msk)) + count_true (take p (msk ! r)))
                                mod length trig)
                  else ids ! r ! p))
       else ids = ids"
    using False by simp
  have uni: "(\<forall>r < length msk. count_true (msk ! r) = length trig) \<longrightarrow>
         (\<forall>r p. r < length ids \<and> p < length (ids ! r) \<longrightarrow>
               ids ! r ! p =
                 (if msk ! r ! p then trig ! count_true (take p (msk ! r)) else ids ! r ! p))"
    using not_uni by blast
  have f: "length s < length ?s'" "?s' ! length s = Dict ?d'"
    "map_of ?d' ''input_ids'' = Some a" "a < length ?s'"
    "?s' ! a = IntTensor ids"
    "\<forall>k. k \<noteq> ''input_ids'' \<longrightarrow> map_of ?d' k = map_of d k"
    "take (length s) ?s' = s" "same_shape ids ids"
    using ia by (simp_all add: update_conv' nth_append same_shape_def)
  show ?thesis
    by (intro exI conjI) (rule run f ifc uni)+
qed

lemmas store_defs = replace_trigger_tokens_def dict_copy_def dict_getitem_def dict_setitem_def
  dict_pop_def get_dict_def get_ints_def get_bools_def alloc_def masked_scatter_def
  same_shape_def repeat_rows_def

text \<open>
  C3 as stated fails where the mask has more true positions than the repeated trigger
  has ids: below, positions 0 and 1 of the only row are masked and the trigger is the
  single id 9; the dictionary returned refers to the caller's tensor \<open>[[5, 6, 7]]\<close>,
  in which no masked position holds a trigger id.
\<close>

theorem replace_trigger_tokens_overfull_mask:
  "replace_trigger_tokens
     [Dict [(''input_ids'', 1)], IntTensor [[5, 6, 7]], IntTensor [[9]],
      BoolTensor [[True, True, False]]] 0 2 3
   = Inr (4, [Dict [(''input_ids'', 1)], IntTensor [[5, 6, 7]], IntTensor [[9]],
              BoolTensor [[True, True, False]], Dict [(''input_ids'', 1)], IntTensor [[9]]])"
  by (simp add: store_defs)

text \<open>A batch of two examples, one trigger position each, filled with the trigger id 9.\<close>

theorem replace_trigger_tokens_fills_witness:
  "replace_trigger_tokens
     [Dict [(''input_ids'', 1), (''attention_mask'', 4)], IntTensor [[5, 6, 7], [1, 2, 3]],
      IntTensor [[9]], BoolTensor [[True, False, False], [False, True, False]],
      IntTensor [[1, 1, 1], [1, 1, 1]]] 0 2 3
   = Inr (5,
     [Dict [(''input_ids'', 1), (''attention_mask'', 4)], IntTensor [[5, 6, 7], [1, 2, 3]],
      IntTensor [[9]], BoolTensor [[True, False, False], [False, True, False]],
      IntTensor [[1, 1, 1], [1, 1, 1]],
      Dict [(''input_ids'', 7), (''attention_mask'', 4)], IntTensor [[9], [9]],
      IntTensor [[9, 6, 7], [1, 9, 3]]])"
proof -
  let ?d = "[(''input_ids'', 1), (''attention_mask'', 4 :: nat)]"
  let ?ids = "[[5, 6, 7], [1, 2, 3 :: int]]"
  let ?msk = "[[True, False, False], [False, True, False]]"
  let ?s = "[Dict ?d, IntTensor ?ids, IntTensor [[9]], BoolTensor ?msk,
             IntTensor [[1, 1, 1], [1, 1, 1]]]"
  have h: "0 < length ?s" "?s ! 0 = Dict ?d" "map_of ?d ''input_ids'' = Some 1"
    "1 < length ?s" "?s ! 1 = IntTensor ?ids" "2 < length ?s" "?s ! 2 = IntTensor [[9]]"
    "3 < length ?s" "?s ! 3 = BoolTensor ?msk" "same_shape ?ids ?msk"
    by (simp_all add: same_shape_def)
  from replace_trigger_tokens_fills [OF h]
  obtain out s' where run: "replace_trigger_tokens ?s 0 2 3 = Inr (out, s')"
    and frame: "take (length ?s) s' = ?s"
    by (elim exE conjE)
  have "replace_trigger_tokens ?s 0 2 3 = Inr (5, ?s @
      [Dict [(''input_ids'', 7), (''attention_mask'', 4)], IntTensor [[9], [9]],
       IntTensor [[9, 6, 7], [1, 9, 3]]])"
    by (simp add: store_defs)
  with run show ?thesis by simp
qed

section \<open>Properties of PredictWrapper\<close>

lemma map_of_delete_other: "k \<noteq> k' \<Longrightarrow> map_of (AList.delete k d) k' = map_of d k'"
  by (simp add: delete_conv')

lemma dict_pop_fresh:
  "map_of d k = Some v \<Longrightarrow>
     dict_pop (s @ Dict d # xs) (length s) k = Inr (v, s @ Dict (AList.delete k d) # xs)"
  by (simp add: dict_pop_def get_dict_def nth_append list_update_append)

lemma concat_equal_rows:
  "\<forall>x \<in> set xs. length x = w \<Longrightarrow> r < length xs \<Longrightarrow>
     take w (drop (r * w) (concat xs)) = xs ! r"
proof (induction xs arbitrary: r)
  case Nil
  then show ?case by simp
next
  case (Cons x xs)
  show ?case
  proof (cases r)
    case 0
    with Cons.prems show ?thesis by simp
  next
    case (Suc q)
    with Cons.prems Cons.IH [of q] show ?thesis by simp
  qed
qed

lemma length_concat_equal_rows:
  "\<forall>x \<in> set xs. length x = w \<Longrightarrow> length (concat xs) = length xs * w"
  by (induction xs) simp_all

lemma view_rows_concat:
  assumes "\<forall>x \<in> set xs. length x = w" and "xs \<noteq> []"
  shows "view_rows (concat xs) (length xs) = Inr xs"
proof -
  have len: "length (concat xs) = length xs * w"
    using assms(1) by (rule length_concat_equal_rows)
  have pos: "0 < length xs" using assms(2) by simp
  have "map (\<lambda>r. take w (drop (r * w) (concat xs))) [0 ..< length xs] = xs"
    using assms(1) by (intro nth_equalityI) (simp_all add: concat_equal_rows)
  then show ?thesis using pos by (simp add: view_rows_def len)
qed

lemma length_select_row:
  "length row = length m \<Longrightarrow> \<forall>v \<in> set row. length v = V \<Longrightarrow>
     length (select_row row m) = count_true m * V"
proof (induction row arbitrary: m)
  case Nil
  then show ?case by (simp add: select_row_def)
next
  case (Cons v row)
  then obtain b m' where m: "m = b # m'" by (cases m) auto
  with Cons.prems Cons.IH [of m'] show ?case
    by (cases b) (simp_all add: select_row_def)
qed

lemma select_view_uniform:
  assumes shape: "same_shape logits msk" and ne: "logits \<noteq> []"
    and uni: "\<forall>r < length msk. count_true (msk ! r) = n"
    and rect: "\<forall>row \<in> set logits. \<forall>v \<in> set row. length v = V"
  shows "py_bind (masked_select logits msk) (\<lambda>flat. view_rows flat (length logits))
           = Inr (map2 select_row logits msk)"
proof -
  let ?sel = "map2 select_row logits msk"
  have len: "length msk = length logits" "\<forall>r < length logits. length (logits ! r) = length (msk ! r)"
    using same_shape_nth [OF shape] by auto
  have "length x = n * V" if "x \<in> set ?sel" for x
  proof -
    from that obtain r where r: "r < length logits" "x = select_row (logits ! r) (msk ! r)"
      using len(1) by (auto simp: in_set_conv_nth)
    have "\<forall>v \<in> set (logits ! r). length v = V" using rect r(1) nth_mem by blast
    then have "length x = count_true (msk ! r) * V"
      using r len(2) by (simp add: length_select_row)
    then show ?thesis using uni r(1) len(1) by simp
  qed
  then have "\<forall>x \<in> set ?sel. length x = n * V" by blast
  moreover have "?sel \<noteq> []" using ne len(1) by (cases logits; cases msk) auto
  ultimately have "view_rows (concat ?sel) (length ?sel) = Inr ?sel"
    by (rule view_rows_concat)
  then show ?thesis using shape len(1) by (simp add: masked_select_def)
qed

lemma PredictWrapper_call_eq:
  assumes mi: "model_inputs < length s" "s ! model_inputs = Dict d"
    and ia: "map_of d ''input_ids'' = Some a" "a < length s" "s ! a = IntTensor ids"
    and tm: "map_of d ''trigger_mask'' = Some tm" "tm < length s" "s ! tm = BoolTensor tmsk"
    and pm: "map_of d ''predict_mask'' = Some pm" "pm < length s" "s ! pm = BoolTensor pmsk"
    and lm: "map_of d ''last_trigger_mask'' = Some lm" "lm < length s" "s ! lm = BoolTensor lmsk"
    and tr: "trigger_ids < length s" "s ! trigger_ids = IntTensor trig"
    and shape: "same_shape ids tmsk"
    and ty: "map_of LM_TYPE (name_or_path model) = Some ty"
  shows "PredictWrapper_call model s model_inputs trigger_ids =
     (let fits = count_true (concat tmsk) \<le> length tmsk * length (concat trig);
          src = repeat_rows trig (length tmsk);
          fa = (if fits then length s + 3 else a);
          d4 = AList.delete ''last_trigger_mask''
                 (AList.delete ''predict_mask'' (AList.delete ''trigger_mask'' d));
          d5 = AList.update ''input_ids'' fa d4;
          d6 = (if py_in ''t5'' (name_or_path model) then AList.update ''labels'' fa d5 else d5);
          s6 = s @ [Dict d4, Dict d6, IntTensor src]
                 @ (if fits then [IntTensor (scatter_rows ids tmsk (concat src))] else []);
          logits = forward model (kwargs_of s6 d6)
      in py_bind (masked_select logits (if ty = ''causal'' then lmsk else pmsk))
           (\<lambda>flat. py_bind (view_rows flat (length logits)) (\<lambda>pl. Inr (pl, s6))))"
proof -
  let ?fits = "count_true (concat tmsk) \<le> length tmsk * length (concat trig)"
  let ?src = "repeat_rows trig (length tmsk)"
  let ?fa = "if ?fits then length s + 3 else a"
  let ?d2 = "AList.delete ''trigger_mask'' d"
  let ?d3 = "AList.delete ''predict_mask'' ?d2"
  let ?d4 = "AList.delete ''last_trigger_mask'' ?d3"
  let ?d5 = "AList.update ''input_ids'' ?fa ?d4"
  let ?d6 = "if py_in ''t5'' (name_or_path model) then AList.update ''labels'' ?fa ?d5 else ?d5"
  let ?tail = "if ?fits then [IntTensor (scatter_rows ids tmsk (concat ?src))] else []"
  let ?s4 = "s @ [Dict ?d4]"
  let ?s5 = "s @ [Dict ?d4, Dict ?d5, IntTensor ?src] @ ?tail"
  let ?s6 = "s @ [Dict ?d4, Dict ?d6, IntTensor ?src] @ ?tail"
  let ?eff = "if ty = ''causal'' then lmsk else pmsk"
  have c: "dict_copy s model_inputs = Inr (length s, s @ [Dict d])"
    using mi by (simp add: dict_copy_def get_dict_ok alloc_def)
  have p1: "dict_pop (s @ [Dict d]) (length s) ''trigger_mask'' = Inr (tm, s @ [Dict ?d2])"
    using tm(1) by (rule dict_pop_fresh)
  have p2: "dict_pop (s @ [Dict ?d2]) (length s) ''predict_mask'' = Inr (pm, s @ [Dict ?d3])"
    using pm(1) by (intro dict_pop_fresh) (simp add: delete_conv')
  have p3: "dict_pop (s @ [Dict ?d3]) (length s) ''last_trigger_mask'' = Inr (lm, ?s4)"
    using lm(1) by (intro dict_pop_fresh) (simp add: delete_conv')
  have rep: "replace_trigger_tokens ?s4 (length s) trigger_ids tm = Inr (length s + 1, ?s5)"
  proof -
    have h: "length s < length ?s4" "?s4 ! length s = Dict ?d4"
      "map_of ?d4 ''input_ids'' = Some a" "a < length ?s4" "?s4 ! a = IntTensor ids"
      "trigger_ids < length ?s4" "?s4 ! trigger_ids = IntTensor trig"
      "tm < length ?s4" "?s4 ! tm = BoolTensor tmsk"
      using ia tr tm(2,3) by (simp_all add: delete_conv' nth_append)
    show ?thesis
      unfolding replace_trigger_tokens_eq [OF h shape] by (simp add: numeral_3_eq_3)
  qed
  have lab: "(if py_in ''t5'' (name_or_path model)
              then py_bind (dict_getitem ?s5 (length s + 1) ''input_ids'')
                     (\<lambda>a. dict_setitem ?s5 (length s + 1) ''labels'' a)
              else Inr ?s5) = Inr ?s6"
    by (simp add: dict_getitem_def dict_setitem_def get_dict_def nth_append update_conv'
        list_update_append)
  have gd: "get_dict ?s6 (length s + 1) = Inr ?d6"
    by (simp add: get_dict_def nth_append)
  have gb: "get_bools ?s6 (if ty = ''causal'' then lm else pm) = Inr ?eff"
    using pm(2,3) lm(2,3) by (simp add: get_bools_def nth_append)
  show ?thesis
    unfolding PredictWrapper_call_def Let_def c py_bind_simps prod.case p1 p2 p3 ty option.case
      rep lab gd gb
    by (rule refl)
qed

lemma py_bind_assoc: "py_bind m (\<lambda>x. py_bind (f x) g) = py_bind (py_bind m f) g"
  by (cases m) simp_all

lemma map_of_kwargs_of: "map_of (kwargs_of s d) k = map_option (\<lambda>a. s ! a) (map_of d k)"
  unfolding kwargs_of_def by (induction d) auto

text \<open>
  C4 (as amended). Let the batch carry \<open>input_ids\<close>, \<open>trigger_mask\<close>, \<open>predict_mask\<close>
  and \<open>last_trigger_mask\<close>, and let the model's name be a key of \<open>LM_TYPE\<close>. The model is
  run on keyword arguments without the three masks, in which \<open>input_ids\<close> is the tensor
  \<open>replace_trigger_tokens\<close> fills (and \<open>labels\<close> is that tensor too for a t5 model).
  The mask that is read is \<open>predict_mask\<close>, or \<open>last_trigger_mask\<close> for a model
  registered as causal. If the logits have the mask's batch size and length, the batch
  is not empty, every logit vector has the same length and every example has the same
  number of true positions in the mask read, then \<open>PredictWrapper.__call__\<close> returns,
  for each example, the logits of that example at exactly the positions where the mask
  is true. The caller's objects are left as they were.
\<close>

theorem PredictWrapper_call_selects:
  assumes mi: "model_inputs < length s" "s ! model_inputs = Dict d"
    and ia: "map_of d ''input_ids'' = Some a" "a < length s" "s ! a = IntTensor ids"
    and tm: "map_of d ''trigger_mask'' = Some tm" "tm < length s" "s ! tm = BoolTensor tmsk"
    and pm: "map_of d ''predict_mask'' = Some pm" "pm < length s" "s ! pm = BoolTensor pmsk"
    and lm: "map_of d ''last_trigger_mask'' = Some lm" "lm < length s" "s ! lm = BoolTensor lmsk"
    and tr: "trigger_ids < length s" "s ! trigger_ids = IntTensor trig"
    and shape: "same_shape ids tmsk"
    and ty: "map_of LM_TYPE (name_or_path model) = Some ty"
  shows "\<exists>kw filled s'.
      filled = (case masked_scatter ids tmsk (repeat_rows trig (length tmsk)) of
                  Inr t \<Rightarrow> t | Inl e \<Rightarrow> ids)
    \<and> map_of kw ''input_ids'' = Some (IntTensor filled)
    \<and> map_of kw ''trigger_mask'' = None \<and> map_of kw ''predict_mask'' = None
    \<and> map_of kw ''last_trigger_mask'' = None
    \<and> (py_in ''t5'' (name_or_path model) \<longrightarrow> map_of kw ''labels'' = Some (IntTensor filled))
    \<and> take (length s) s' = s
    \<and> (\<forall>n V. same_shape (forward model kw) (if ty = ''causal'' then lmsk else pmsk)
            \<and> forward model kw \<noteq> []
            \<and> (\<forall>r < length (if ty = ''causal'' then lmsk else pmsk).
                   count_true ((if ty = ''causal'' then lmsk else pmsk) ! r) = n)
            \<and> (\<forall>row \<in> set (forward model kw). \<forall>v \<in> set row. length v = V)
          \<longrightarrow> PredictWrapper_call model s model_inputs trigger_ids =
                Inr (map2 select_row (forward model kw) (if ty = ''causal'' then lmsk else pmsk),
                     s'))"
proof -
  let ?fits = "count_true (concat tmsk) \<le> length tmsk * length (concat trig)"
  let ?src = "repeat_rows trig (length tmsk)"
  let ?fa = "if ?fits then length s + 3 else a"
  let ?d4 = "AList.delete ''last_trigger_mask''
               (AList.delete ''predict_mask'' (AList.delete ''trigger_mask'' d))"
  let ?d5 = "AList.update ''input_ids'' ?fa ?d4"
  let ?d6 = "if py_in ''t5'' (name_or_path model) then AList.update ''labels'' ?fa ?d5 else ?d5"
  let ?s6 = "s @ [Dict ?d4, Dict ?d6, IntTensor ?src]
               @ (if ?fits then [IntTensor (scatter_rows ids tmsk (concat ?src))] else [])"
  let ?kw = "kwargs_of ?s6 ?d6"
  let ?eff = "if ty = ''causal'' then lmsk else pmsk"
  let ?filled = "case masked_scatter ids tmsk ?src of Inr t \<Rightarrow> t | Inl e \<Rightarrow> ids"
  have eq: "PredictWrapper_call model s model_inputs trigger_ids =
      py_bind (py_bind (masked_select (forward model ?kw) ?eff)
                 (\<lambda>flat. view_rows flat (length (forward model ?kw))))
        (\<lambda>pl. Inr (pl, ?s6))"
    unfolding PredictWrapper_call_eq [OF assms] Let_def py_bind_assoc by (rule refl)
  have ms: "masked_scatter ids tmsk ?src =
      (if ?fits then Inr (scatter_rows ids tmsk (concat ?src)) else Inl RuntimeError)"
    using shape by (simp add: masked_scatter_def length_concat_repeat_rows)
  have k1: "map_of ?kw ''input_ids'' = Some (IntTensor ?filled)"
    using ia(2,3) by (cases ?fits) (simp_all add: map_of_kwargs_of ms update_conv' nth_append)
  have k2: "map_of ?kw ''trigger_mask'' = None" "map_of ?kw ''predict_mask'' = None"
    "map_of ?kw ''last_trigger_mask'' = None"
    unfolding map_of_kwargs_of by (simp_all add: update_conv' delete_conv')
  have k3: "py_in ''t5'' (name_or_path model) \<longrightarrow> map_of ?kw ''labels'' = Some (IntTensor ?filled)"
    using ia(2,3) by (cases ?fits) (simp_all add: map_of_kwargs_of ms update_conv' nth_append)
  have frame: "take (length s) ?s6 = s" by simp
  have sel: "\<forall>n V. same_shape (forward model ?kw) ?eff
            \<and> forward model ?kw \<noteq> []
            \<and> (\<forall>r < length ?eff. count_true (?eff ! r) = n)
            \<and> (\<forall>row \<in> set (forward model ?kw). \<forall>v \<in> set row. length v = V)
          \<longrightarrow> PredictWrapper_call model s model_inputs trigger_ids =
                Inr (map2 select_row (forward model ?kw) ?eff, ?s6)"
  proof (intro allI impI, elim conjE)
    fix n V
    assume "same_shape (forward model ?kw) ?eff" "forward model ?kw \<noteq> []"
      "\<forall>r < length ?eff. count_true (?eff ! r) = n"
      "\<forall>row \<in> set (forward model ?kw). \<forall>v \<in> set row. length v = V"
    from select_view_uniform [OF this]
    show "PredictWrapper_call model s model_inputs trigger_ids =
                Inr (map2 select_row (forward model ?kw) ?eff, ?s6)"
      unfolding eq by simp
  qed
  show ?thesis
    by (intro exI conjI) (rule refl k1 k2 k3 frame sel)+
qed

lemmas predict_defs = PredictWrapper_call_def masked_select_def view_rows_def select_row_def
  LM_TYPE_def kwargs_of_def

text \<open>
  C4 as stated fails for a batch whose examples have different numbers of true
  positions: the flat selection is cut into rows of equal length. Below, example 0 has
  two predict positions and example 1 none; the logits at the predict positions are
  \<open>[1, 2]\<close> for example 0 and none for example 1, but the rows returned are \<open>[1]\<close> and
  \<open>[2]\<close>: the second row is a logit of example 0.
\<close>

theorem PredictWrapper_call_uneven_mask:
  "map_sum id fst
     (PredictWrapper_call
        \<lparr>name_or_path = ''bert-base-cased'', forward = (\<lambda>kw. [[[1], [2]], [[3], [4]]])\<rparr>
        [Dict [(''input_ids'', 1), (''trigger_mask'', 3), (''predict_mask'', 4),
               (''last_trigger_mask'', 5)],
         IntTensor [[5, 6], [7, 8]], IntTensor [[9]],
         BoolTensor [[True, False], [True, False]],
         BoolTensor [[True, True], [False, False]],
         BoolTensor [[True, False], [True, False]]] 0 2)
   = Inr [[1], [2]]
   \<and> map2 select_row [[[1], [2]], [[3], [4 :: real]]] [[True, True], [False, False]]
       = [[1, 2], []]"
  by (simp add: predict_defs store_defs upt_rec)

text \<open>
  A causal model: the prediction is read at the last trigger position of each example
  (position 0 of example 0, position 1 of example 1), not at the predict positions.
\<close>

theorem PredictWrapper_call_selects_witness:
  "map_sum id fst
     (PredictWrapper_call
        \<lparr>name_or_path = ''gpt2-xl'', forward = (\<lambda>kw. [[[1, 2], [3, 4]], [[5, 6], [7, 8]]])\<rparr>
        [Dict [(''input_ids'', 1), (''trigger_mask'', 3), (''predict_mask'', 4),
               (''last_trigger_mask'', 5)],
         IntTensor [[5, 6], [7, 8]], IntTensor [[9]],
         BoolTensor [[True, False], [False, True]],
         BoolTensor [[False, True], [True, False]],
         BoolTensor [[True, False], [False, True]]] 0 2)
   = Inr [[1, 2], [7, 8]]"
proof -
  let ?L = "[[[1, 2], [3, 4]], [[5, 6], [7, 8 :: real]]]"
  let ?M = "\<lparr>name_or_path = ''gpt2-xl'', forward = (\<lambda>kw. ?L)\<rparr>"
  let ?d = "[(''input_ids'', 1), (''trigger_mask'', 3), (''predict_mask'', 4),
             (''last_trigger_mask'', 5 :: nat)]"
  let ?ids = "[[5, 6], [7, 8 :: int]]"
  let ?tm = "[[True, False], [False, True]]"
  let ?pm = "[[False, True], [True, False]]"
  let ?s = "[Dict ?d, IntTensor ?ids, IntTensor [[9]], BoolTensor ?tm, BoolTensor ?pm,
             BoolTensor ?tm]"
  have h: "0 < length ?s" "?s ! 0 = Dict ?d"
    "map_of ?d ''input_ids'' = Some 1" "1 < length ?s" "?s ! 1 = IntTensor ?ids"
    "map_of ?d ''trigger_mask'' = Some 3" "3 < length ?s" "?s ! 3 = BoolTensor ?tm"
    "map_of ?d ''predict_mask'' = Some 4" "4 < length ?s" "?s ! 4 = BoolTensor ?pm"
    "map_of ?d ''last_trigger_mask'' = Some 5" "5 < length ?s" "?s ! 5 = BoolTensor ?tm"
    "2 < length ?s" "?s ! 2 = IntTensor [[9]]"
    "same_shape ?ids ?tm"
    "map_of LM_TYPE (name_or_path ?M) = Some ''causal''"
    by (simp_all add: same_shape_def LM_TYPE_def)
  let ?eff = "if ''causal'' = ''causal'' then ?tm else ?pm"
  from PredictWrapper_call_selects [OF h]
  obtain kw s' where sel: "\<forall>n V. same_shape (forward ?M kw) ?eff \<and> forward ?M kw \<noteq> []
            \<and> (\<forall>r < length ?eff. count_true (?eff ! r) = n)
            \<and> (\<forall>row \<in> set (forward ?M kw). \<forall>v \<in> set row. length v = V)
          \<longrightarrow> PredictWrapper_call ?M ?s 0 2 = Inr (map2 select_row (forward ?M kw) ?eff, s')"
    by (elim exE conjE) (rule that)
  have "PredictWrapper_call ?M ?s 0 2 = Inr (map2 select_row (forward ?M kw) ?eff, s')"
    by (rule sel [rule_format, of 1 2]) (simp add: same_shape_def less_Suc_eq numeral_2_eq_2)
  then show ?thesis by (simp add: select_row_def)
qed

section \<open>The caller's objects are not written\<close>

lemma py_bind_InrE:
  assumes "py_bind m f = Inr y"
  obtains x where "m = Inr x" and "f x = Inr y"
  using assms by (cases m) simp_all

lemma dict_copy_Inr:
  assumes "dict_copy s a = Inr (c, s1)"
  shows "c = length s \<and> (\<exists>v. s1 = s @ [v])"
  using assms by (auto simp: dict_copy_def alloc_def elim!: py_bind_InrE)

lemma dict_pop_Inr:
  assumes "dict_pop s a k = Inr (v, s1)"
  shows "\<exists>w. s1 = s[a := w]"
  using assms by (auto simp: dict_pop_def elim!: py_bind_InrE split: option.splits)

lemma dict_setitem_Inr:
  assumes "dict_setitem s a k v = Inr s1"
  shows "\<exists>w. s1 = s[a := w]"
  using assms by (auto simp: dict_setitem_def elim!: py_bind_InrE)

lemma take_fresh_update: "n \<le> a \<Longrightarrow> take n (s[a := w]) = take n s"
  by simp

lemma replace_trigger_tokens_frame:
  assumes "replace_trigger_tokens s model_inputs trigger_ids trigger_mask = Inr (out, s')"
  shows "out = length s \<and> length s < length s' \<and> take (length s) s' = s"
proof -
  from assms obtain s1 input_ids trig msk ids filled s3 where
    c: "dict_copy s model_inputs = Inr (out, s1)"
    and f: "(case masked_scatter ids msk (repeat_rows trig (length msk)) of
                Inr t \<Rightarrow> Inr (alloc (s1 @ [IntTensor (repeat_rows trig (length msk))]) (IntTensor t))
              | Inl RuntimeError \<Rightarrow> Inr (input_ids, s1 @ [IntTensor (repeat_rows trig (length msk))])
              | Inl e \<Rightarrow> Inl e) = Inr (filled, s3)"
    and st: "dict_setitem s3 out ''input_ids'' filled = Inr s'"
    unfolding replace_trigger_tokens_def
    by (auto simp: alloc_def elim!: py_bind_InrE)
  from dict_copy_Inr [OF c] obtain v where out: "out = length s" and s1: "s1 = s @ [v]"
    by blast
  from f have s3: "length s < length s3 \<and> take (length s) s3 = s"
    by (auto simp: s1 alloc_def split: sum.splits py_error.splits)
  from dict_setitem_Inr [OF st] obtain w where "s' = s3[out := w]" by blast
  with s3 out show ?thesis by simp
qed

lemma PredictWrapper_call_frame:
  assumes "PredictWrapper_call model s model_inputs trigger_ids = Inr (pl, s')"
  shows "length s < length s' \<and> take (length s) s' = s"
proof -
  from assms obtain c s1 tm s2 pm s3 lm s4 out s5 where
    c: "dict_copy s model_inputs = Inr (c, s1)"
    and p1: "dict_pop s1 c ''trigger_mask'' = Inr (tm, s2)"
    and p2: "dict_pop s2 c ''predict_mask'' = Inr (pm, s3)"
    and p3: "dict_pop s3 c ''last_trigger_mask'' = Inr (lm, s4)"
    and r: "replace_trigger_tokens s4 c trigger_ids tm = Inr (out, s5)"
    and l: "(if py_in ''t5'' (name_or_path model)
              then py_bind (dict_getitem s5 out ''input_ids'')
                     (\<lambda>a. dict_setitem s5 out ''labels'' a)
              else Inr s5) = Inr s'"
    unfolding PredictWrapper_call_def Let_def
    by (auto elim!: py_bind_InrE)
  from dict_copy_Inr [OF c] obtain v where cc: "c = length s" and s1: "s1 = s @ [v]"
    by blast
  from dict_pop_Inr [OF p1] dict_pop_Inr [OF p2] dict_pop_Inr [OF p3]
  obtain w1 w2 w3 where s4: "s4 = s1[c := w1, c := w2, c := w3]" by blast
  have len4: "length s4 = Suc (length s)" and t4: "take (length s) s4 = s"
    by (simp_all add: s4 s1 cc)
  from replace_trigger_tokens_frame [OF r]
  have out: "out = length s4" and len5: "length s4 < length s5"
    and t5: "take (length s4) s5 = s4"
    by simp_all
  have "take (length s) s5 = take (length s) (take (length s4) s5)"
    by (simp add: len4 min_def)
  then have t5': "take (length s) s5 = s" by (simp add: t5 t4)
  from l have "s' = s5 \<or> (\<exists>w. s' = s5[out := w])"
    by (auto split: if_splits elim!: py_bind_InrE dest: dict_setitem_Inr)
  then show ?thesis using t5' len5 len4 out by auto
qed

text \<open>
  C10. Whenever \<open>replace_trigger_tokens\<close> or \<open>PredictWrapper.__call__\<close> returns, every
  object that was in the store before the call (the caller's dictionary, the tensors it
  refers to, the trigger ids) is the same after it: the caller's dictionary still
  holds \<open>input_ids\<close>, \<open>trigger_mask\<close>, \<open>predict_mask\<close> and \<open>last_trigger_mask\<close>, and
  they refer to unchanged tensors. Both functions write only to the copies and tensors
  they create.
\<close>

theorem calls_leave_inputs_unchanged:
  "(replace_trigger_tokens s model_inputs trigger_ids trigger_mask = Inr (out, s') \<longrightarrow>
      take (length s) s' = s \<and> (\<forall>a < length s. s' ! a = s ! a))
   \<and> (PredictWrapper_call model s model_inputs trigger_ids = Inr (pl, s'') \<longrightarrow>
      take (length s) s'' = s \<and> (\<forall>a < length s. s'' ! a = s ! a))"
proof (intro conjI impI allI)
  assume r: "replace_trigger_tokens s model_inputs trigger_ids trigger_mask = Inr (out, s')"
  from replace_trigger_tokens_frame [OF r] show t: "take (length s) s' = s" by simp
  fix a assume "a < length s"
  then have "take (length s) s' ! a = s' ! a" by simp
  with t show "s' ! a = s ! a" by simp
next
  assume r: "PredictWrapper_call model s model_inputs trigger_ids = Inr (pl, s'')"
  from PredictWrapper_call_frame [OF r] show t: "take (length s) s'' = s" by simp
  fix a assume "a < length s"
  then have "take (length s) s'' ! a = s'' ! a" by simp
  with t show "s'' ! a = s ! a" by simp
qed

text \<open>
  Both calls on one batch, for a t5 model: the five objects of the caller are the first
  five objects of either result, unchanged; the pops and the \<open>labels\<close> entry went to
  the copies.
\<close>

theorem calls_leave_inputs_unchanged_witness:
  "replace_trigger_tokens
     [Dict [(''input_ids'', 1), (''trigger_mask'', 3), (''predict_mask'', 4),
            (''last_trigger_mask'', 3)],
      IntTensor [[5, 6]], IntTensor [[9]], BoolTensor [[True, False]],
      BoolTensor [[False, True]]] 0 2 3
   = Inr (5,
     [Dict [(''input_ids'', 1), (''trigger_mask'', 3), (''predict_mask'', 4),
            (''last_trigger_mask'', 3)],
      IntTensor [[5, 6]], IntTensor [[9]], BoolTensor [[True, False]],
      BoolTensor [[False, True]],
      Dict [(''input_ids'', 7), (''trigger_mask'', 3), (''predict_mask'', 4),
            (''last_trigger_mask'', 3)],
      IntTensor [[9]], IntTensor [[9, 6]]])
   \<and> PredictWrapper_call
       \<lparr>name_or_path = ''t5-small'', forward = (\<lambda>kw. [[[1, 2], [3, 4]]])\<rparr>
       [Dict [(''input_ids'', 1), (''trigger_mask'', 3), (''predict_mask'', 4),
              (''last_trigger_mask'', 3)],
        IntTensor [[5, 6]], IntTensor [[9]], BoolTensor [[True, False]],
        BoolTensor [[False, True]]] 0 2
   = Inr ([[3, 4]],
     [Dict [(''input_ids'', 1), (''trigger_mask'', 3), (''predict_mask'', 4),
            (''last_trigger_mask'', 3)],
      IntTensor [[5, 6]], IntTensor [[9]], BoolTensor [[True, False]],
      BoolTensor [[False, True]],
      Dict [(''input_ids'', 1)], Dict [(''input_ids'', 8), (''labels'', 8)],
      IntTensor [[9]], IntTensor [[9, 6]]])
   \<and> take 5
       [Dict [(''input_ids'', 1), (''trigger_mask'', 3), (''predict_mask'', 4),
              (''last_trigger_mask'', 3)],
        IntTensor [[5, 6]], IntTensor [[9]], BoolTensor [[True, False]],
        BoolTensor [[False, True]],
        Dict [(''input_ids'', 1)], Dict [(''input_ids'', 8), (''labels'', 8)],
        IntTensor [[9]], IntTensor [[9, 6 :: int]]]
     = [Dict [(''input_ids'', 1), (''trigger_mask'', 3), (''predict_mask'', 4),
              (''last_trigger_mask'', 3)],
        IntTensor [[5, 6]], IntTensor [[9]], BoolTensor [[True, False]],
        BoolTensor [[False, True]]]"
proof -
  let ?d = "[(''input_ids'', 1), (''trigger_mask'', 3), (''predict_mask'', 4),
             (''last_trigger_mask'', 3 :: nat)]"
  let ?s = "[Dict ?d, IntTensor [[5, 6]], IntTensor [[9]], BoolTensor [[True, False]],
             BoolTensor [[False, True]]]"
  let ?M = "\<lparr>name_or_path = ''t5-small'', forward = (\<lambda>kw. [[[1, 2], [3, 4 :: real]]])\<rparr>"
  let ?s1 = "?s @ [Dict [(''input_ids'', 7), (''trigger_mask'', 3), (''predict_mask'', 4),
                         (''last_trigger_mask'', 3)],
                   IntTensor [[9]], IntTensor [[9, 6]]]"
  let ?s2 = "?s @ [Dict [(''input_ids'', 1)], Dict [(''input_ids'', 8), (''labels'', 8)],
                   IntTensor [[9]], IntTensor [[9, 6]]]"
  have e1: "replace_trigger_tokens ?s 0 2 3 = Inr (5, ?s1)"
    by (simp add: store_defs)
  have e2: "PredictWrapper_call ?M ?s 0 2 = Inr ([[3, 4]], ?s2)"
    by (simp add: predict_defs store_defs upt_rec)
  from calls_leave_inputs_unchanged [of ?s 0 2 3 5 ?s1 ?M "[[3, 4]]" ?s2] e1 e2
  have "take (length ?s) ?s2 = ?s" by blast
  with e1 e2 show ?thesis by simp
qed

section \<open>Properties of AccuracyFn\<close>

lemma apply_mask_gather:
  "apply_mask (gather lp ids) ids = map (\<lambda>i. if i = 0 then None else Some (lp ! nat i)) ids"
  by (induction ids) (simp_all add: apply_mask_def gather_def)

lemma masked_all:
  "list_all (\<lambda>x. x = None) (map (\<lambda>i. if i = 0 then None else Some (lp ! nat i)) ids)
     \<longleftrightarrow> list_all (\<lambda>i. i = 0) ids"
  by (induction ids) simp_all

lemma masked_sum:
  "sum_list (map (\<lambda>x. case x of None \<Rightarrow> 0 | Some v \<Rightarrow> exp v)
               (map (\<lambda>i. if i = 0 then None else Some (lp ! nat i)) ids))
     = (\<Sum>i\<leftarrow>filter (\<lambda>i. i \<noteq> 0) ids. exp (lp ! nat i))"
  by (induction ids) simp_all


lemma row_loss_filter:
  "row_loss logits ids =
     (if list_all (\<lambda>i. i = 0) ids then 10 ^ 32
      else - ln (\<Sum>i\<leftarrow>filter (\<lambda>i. i \<noteq> 0) ids. exp (log_softmax logits ! nat i)))"
  unfolding row_loss_def logsumexp_def Let_def apply_mask_gather masked_all masked_sum
  by simp




lemma get_loss_ok:
  assumes "length label_ids = length predict_logits"
    and "\<forall>b < length predict_logits.
           label_ids ! b \<noteq> [] \<and> ids_in_range (predict_logits ! b) (label_ids ! b)"
    and "\<forall>b < length predict_logits. logits_in_range (predict_logits ! b)"
  shows "get_loss predict_logits label_ids = Inr (map2 row_loss predict_logits label_ids)"
proof -
  have "list_all (\<lambda>(logits, ids). ids_in_range logits ids) (zip predict_logits label_ids)"
    using assms by (simp add: list_all_length)
  moreover have "list_all (\<lambda>ids. ids \<noteq> []) label_ids"
    using assms by (simp add: list_all_length)
  moreover have "list_all logits_in_range predict_logits"
    using assms by (simp add: list_all_length)
  ultimately show ?thesis using assms(1) by (simp add: get_loss_def)
qed

lemma get_loss_repeated:
  assumes "ids \<noteq> []" and "\<forall>b < length predict_logits. ids_in_range (predict_logits ! b) ids"
    and "\<forall>b < length predict_logits. logits_in_range (predict_logits ! b)"
  shows "get_loss predict_logits (repeat_rows [ids] (length predict_logits))
           = Inr (map (\<lambda>logits. row_loss logits ids) predict_logits)"
proof -
  have rep: "repeat_rows [ids] n = replicate n ids" for n
    unfolding repeat_rows_def by (induction n) simp_all
  have "get_loss predict_logits (replicate (length predict_logits) ids)
      = Inr (map2 row_loss predict_logits (replicate (length predict_logits) ids))"
    using assms by (intro get_loss_ok) simp_all
  moreover have "map2 row_loss predict_logits (replicate (length predict_logits) ids)
      = map (\<lambda>logits. row_loss logits ids) predict_logits"
    by (intro nth_equalityI) simp_all
  ultimately show ?thesis by (simp add: rep)
qed

lemma collect_all_ok:
  "\<forall>x \<in> set xs. f x = Inr (g x) \<Longrightarrow> collect (map f xs) = Inr (map g xs)"
  by (induction xs) simp_all

lemma AccuracyFn_call_eq:
  assumes gold_shape: "length gold_label_ids = length predict_logits"
    and gold_ok: "\<forall>b < length predict_logits.
           gold_label_ids ! b \<noteq> [] \<and> ids_in_range (predict_logits ! b) (gold_label_ids ! b)"
    and labels: "all_label_ids self = map (\<lambda>ids. [ids]) labels" "labels \<noteq> []"
    and labels_ok: "\<forall>ids \<in> set labels.
           ids \<noteq> [] \<and> (\<forall>b < length predict_logits. ids_in_range (predict_logits ! b) ids)"
    and range: "\<forall>b < length predict_logits. logits_in_range (predict_logits ! b)"
  shows "AccuracyFn_call self predict_logits gold_label_ids =
     Inr (map (\<lambda>b. if card {l. l < length labels
                         \<and> row_loss (predict_logits ! b) (labels ! l)
                             \<le> row_loss (predict_logits ! b) (gold_label_ids ! b)} \<le> 1
                  then 1 else 0)
            [0 ..< length predict_logits])"
proof -
  let ?B = "length predict_logits"
  let ?gold = "map2 row_loss predict_logits gold_label_ids"
  let ?all = "map (\<lambda>ids. map (\<lambda>logits. row_loss logits ids) predict_logits) labels"
  have g: "get_loss predict_logits gold_label_ids = Inr ?gold"
    using gold_shape gold_ok range by (rule get_loss_ok)
  have c: "collect (map (\<lambda>label_ids. get_loss predict_logits (repeat_rows label_ids ?B))
                      (all_label_ids self)) = Inr ?all"
  proof -
    have "collect (map (\<lambda>ids. get_loss predict_logits (repeat_rows [ids] ?B)) labels) = Inr ?all"
      using labels_ok range by (intro collect_all_ok) (simp add: get_loss_repeated)
    then show ?thesis by (simp add: labels(1) comp_def)
  qed
  have ne: "?all \<noteq> []" using labels(2) by simp
  have hd: "length (hd ?all) = ?B" using labels(2) by (cases labels) simp_all
  have eqlen: "list_all (\<lambda>logp. length logp = length (hd ?all)) ?all"
    unfolding hd by (simp add: list_all_iff)
  have lg: "length ?gold = ?B" using gold_shape by simp
  have cnt: "length (filter (\<lambda>logp. logp ! b \<le> ?gold ! b) ?all)
      = card {l. l < length labels
                \<and> row_loss (predict_logits ! b) (labels ! l)
                    \<le> row_loss (predict_logits ! b) (gold_label_ids ! b)}"
    if "b < ?B" for b
  proof -
    have "length (filter (\<lambda>logp. logp ! b \<le> ?gold ! b) ?all)
        = card {l. l < length ?all \<and> (?all ! l) ! b \<le> ?gold ! b}"
      by (rule length_filter_conv_card)
    also have "{l. l < length ?all \<and> (?all ! l) ! b \<le> ?gold ! b}
        = {l. l < length labels
                \<and> row_loss (predict_logits ! b) (labels ! l)
                    \<le> row_loss (predict_logits ! b) (gold_label_ids ! b)}"
      using that gold_shape by auto
    finally show ?thesis .
  qed
  have "AccuracyFn_call self predict_logits gold_label_ids =
      Inr (map (\<lambda>b. if length (filter (\<lambda>logp. logp ! b \<le> ?gold ! b) ?all) \<le> 1 then 1 else 0)
             [0 ..< ?B])"
    unfolding AccuracyFn_call_def Let_def g c py_bind_simps
    using ne eqlen hd lg by simp
  also have "map (\<lambda>b. if length (filter (\<lambda>logp. logp ! b \<le> ?gold ! b) ?all) \<le> 1
                      then 1 else (0::real)) [0 ..< ?B]
      = map (\<lambda>b. if card {l. l < length labels
                         \<and> row_loss (predict_logits ! b) (labels ! l)
                             \<le> row_loss (predict_logits ! b) (gold_label_ids ! b)} \<le> 1
                  then 1 else 0) [0 ..< ?B]"
  proof (rule map_cong [OF refl])
    fix b assume "b \<in> set [0 ..< ?B]"
    then have "b < ?B" by simp
    from cnt [OF this]
    show "(if length (filter (\<lambda>logp. logp ! b \<le> ?gold ! b) ?all) \<le> 1 then 1 else (0::real))
        = (if card {l. l < length labels
                         \<and> row_loss (predict_logits ! b) (labels ! l)
                             \<le> row_loss (predict_logits ! b) (gold_label_ids ! b)} \<le> 1
           then 1 else 0)"
      by (simp only:)
  qed
  finally show ?thesis .
qed




text \<open>
  With the logits \<open>[0, 1, 2]\<close> the second label has the smaller loss, and the padded
  gold row has the loss of the first label, not a smaller one: the example is marked
  wrong.
\<close>

lemma AccuracyFn_call_padded_gold_example:
  "AccuracyFn_call \<lparr>all_label_ids = [[[1]], [[2]]], pred_to_label = [''yes'', ''no'']\<rparr>
     [[0, 1, 2]] [[1, 0]] = Inr [0]"
proof -
  let ?self = "\<lparr>all_label_ids = [[[1]], [[2]]], pred_to_label = [''yes'', ''no'']\<rparr>"
  let ?pl = "[[0, 1, 2 :: real]]"
  let ?gold = "[[1, 0 :: int]]"
  let ?labels = "[[1], [2 :: int]]"
  have h: "length ?gold = length ?pl"
    "\<forall>b < length ?pl. ?gold ! b \<noteq> [] \<and> ids_in_range (?pl ! b) (?gold ! b)"
    "all_label_ids ?self = map (\<lambda>ids. [ids]) ?labels" "?labels \<noteq> []"
    "\<forall>ids \<in> set ?labels. ids \<noteq> [] \<and> (\<forall>b < length ?pl. ids_in_range (?pl ! b) ids)"
    "\<forall>b < length ?pl. logits_in_range (?pl ! b)"
    by (simp_all add: ids_in_range_def logits_in_range_def)
  have l1: "row_loss [0, 1, 2] [1] \<le> row_loss [0, 1, 2] [1, 0]"
    by (simp add: row_loss_filter log_softmax_def)
  have l2: "row_loss [0, 1, 2] [2] \<le> row_loss [0, 1, 2] [1, 0]"
    by (simp add: row_loss_filter log_softmax_def)
  have "{l. l < length ?labels
            \<and> row_loss (?pl ! 0) (?labels ! l) \<le> row_loss (?pl ! 0) (?gold ! 0)} = {0, 1}"
    using l1 l2 by (auto simp: less_Suc_eq numeral_2_eq_2)
  then have "card {l. l < length ?labels
            \<and> row_loss (?pl ! 0) (?labels ! l) \<le> row_loss (?pl ! 0) (?gold ! 0)} = 2"
    by simp
  with AccuracyFn_call_eq [OF h] show ?thesis by simp
qed

section \<open>Properties of the gradient accumulation\<close>

lemma nth_concat_equal_rows:
  "\<forall>x \<in> set xs. length x = w \<Longrightarrow> b < length xs \<Longrightarrow> t < w \<Longrightarrow>
     concat xs ! (b * w + t) = xs ! b ! t"
proof (induction xs arbitrary: b)
  case Nil
  then show ?case by simp
next
  case (Cons x xs)
  show ?case
  proof (cases b)
    case 0
    with Cons.prems show ?thesis by (simp add: nth_append)
  next
    case (Suc c)
    with Cons.prems Cons.IH [of c] show ?thesis by (simp add: nth_append)
  qed
qed

lemma concat_map_concat: "concat (map concat xss) = concat (concat xss)"
  by (induction xss) simp_all

lemma length_filter_zip_mask:
  "length m = length example \<Longrightarrow> length (filter fst (zip m example)) = count_true m"
proof (induction m arbitrary: example)
  case Nil
  then show ?case by simp
next
  case (Cons b m)
  then obtain v rest where "example = v # rest" by (cases example) auto
  with Cons show ?case by simp
qed

lemma select_view3:
  assumes shape: "same_shape grad msk"
    and uni: "list_all (\<lambda>m. count_true m = n) msk"
    and rect: "list_all (list_all (\<lambda>v. length v = E)) grad"
  shows "py_bind (masked_select grad msk) (\<lambda>flat. view3 flat (length grad) n E)
           = Inr (trigger_position_grads grad msk)"
proof -
  let ?tpg = "trigger_position_grads grad msk"
  have len: "length msk = length grad" "\<forall>r < length grad. length (grad ! r) = length (msk ! r)"
    using same_shape_nth [OF shape] by auto
  have ltpg: "length ?tpg = length grad"
    using len(1) by (simp add: trigger_position_grads_def)
  have row: "?tpg ! b = map snd (filter fst (zip (msk ! b) (grad ! b)))" if "b < length grad" for b
    using that len(1) by (simp add: trigger_position_grads_def)
  have rows: "\<forall>x \<in> set ?tpg. length x = n"
  proof
    fix x assume "x \<in> set ?tpg"
    then obtain b where b: "b < length grad" "x = ?tpg ! b"
      using ltpg by (auto simp: in_set_conv_nth)
    have "count_true (msk ! b) = n" using uni b(1) len(1) by (simp add: list_all_length)
    then show "length x = n" using b len(2) by (simp add: row length_filter_zip_mask)
  qed
  have vecs: "\<forall>v \<in> set (concat ?tpg). length v = E"
  proof
    fix v assume "v \<in> set (concat ?tpg)"
    then obtain x where x: "x \<in> set ?tpg" "v \<in> set x" by auto
    then obtain b where b: "b < length grad" "x = ?tpg ! b"
      using ltpg by (auto simp: in_set_conv_nth)
    from x(2) have "v \<in> set (grad ! b)"
      unfolding b(2) row [OF b(1)] by (auto dest: set_zip_rightD)
    then show "length v = E" using rect b(1) by (auto simp: list_all_iff)
  qed
  have sel: "map2 select_row grad msk = map concat ?tpg"
    using len(1) by (intro nth_equalityI) (simp_all add: select_row_def trigger_position_grads_def)
  have flat: "concat (map2 select_row grad msk) = concat (concat ?tpg)"
    by (simp add: sel concat_map_concat)
  have lcc: "length (concat ?tpg) = length grad * n"
    using length_concat_equal_rows [OF rows] ltpg by simp
  have lflat: "length (concat (concat ?tpg)) = length grad * n * E"
    using length_concat_equal_rows [OF vecs] lcc by simp
  have cell: "take E (drop ((b * n + t) * E) (concat (concat ?tpg))) = ?tpg ! b ! t"
    if b: "b < length grad" and t: "t < n" for b t
  proof -
    have "b * n + t < Suc b * n" using t by simp
    also have "\<dots> \<le> length grad * n" using b by (intro mult_le_mono1) simp
    finally have k: "b * n + t < length (concat ?tpg)" using lcc by simp
    have "take E (drop ((b * n + t) * E) (concat (concat ?tpg))) = concat ?tpg ! (b * n + t)"
      using vecs k by (rule concat_equal_rows)
    also have "\<dots> = ?tpg ! b ! t"
      using rows b t ltpg by (intro nth_concat_equal_rows) simp_all
    finally show ?thesis .
  qed
  have "map (\<lambda>b. map (\<lambda>t. take E (drop ((b * n + t) * E) (concat (concat ?tpg)))) [0 ..< n])
          [0 ..< length grad] = ?tpg"
  proof (rule nth_equalityI)
    show "length (map (\<lambda>b. map (\<lambda>t. take E (drop ((b * n + t) * E) (concat (concat ?tpg)))) [0 ..< n])
          [0 ..< length grad]) = length ?tpg" using ltpg by simp
  next
    fix b assume "b < length (map (\<lambda>b. map (\<lambda>t. take E (drop ((b * n + t) * E) (concat (concat ?tpg)))) [0 ..< n])
          [0 ..< length grad])"
    then have b: "b < length grad" by simp
    have "length (?tpg ! b) = n" using rows b ltpg by simp
    then have "map (\<lambda>t. take E (drop ((b * n + t) * E) (concat (concat ?tpg)))) [0 ..< n] = ?tpg ! b"
      using b by (intro nth_equalityI) (simp_all add: cell)
    then show "map (\<lambda>b. map (\<lambda>t. take E (drop ((b * n + t) * E) (concat (concat ?tpg)))) [0 ..< n])
          [0 ..< length grad] ! b = ?tpg ! b" using b by simp
  qed
  then show ?thesis
    using shape by (simp add: masked_select_def view3_def flat lflat)
qed

lemma batch_okD:
  assumes "batch_ok env trig E b"
  shows "same_shape (backward_grad env b trig) (trigger_mask_of env b)"
    and "emb_dim_of (backward_grad env b trig) = E"
    and "list_all (\<lambda>m. count_true m = num_trigger_tokens env) (trigger_mask_of env b)"
    and "list_all (list_all (\<lambda>v. length v = E)) (backward_grad env b trig)"
  using assms by (simp_all add: batch_ok_def Let_def)

lemma accumulate_step:
  assumes "batch_ok env trig E b"
  shows "accumulate env trig (Suc n) (b # bs) (avg, gs) =
     py_bind (case avg of None \<Rightarrow> Inr (grad_term env trig b)
              | Some a \<Rightarrow> iadd a (grad_term env trig b))
       (\<lambda>a'. accumulate env trig n bs (Some a', Some (backward_grad env b trig)))"
proof -
  let ?grad = "backward_grad env b trig"
  note ok = batch_okD [OF assms]
  have sv: "py_bind (masked_select ?grad (trigger_mask_of env b))
              (\<lambda>flat. view3 flat (length ?grad) (num_trigger_tokens env) (emb_dim_of ?grad))
      = Inr (trigger_position_grads ?grad (trigger_mask_of env b))"
    unfolding ok(2) using ok(1,3,4) by (rule select_view3)
  show ?thesis
    unfolding accumulate.simps hook_def get_def Let_def list.sel option.case py_bind_assoc sv
      py_bind_simps grad_term_def
    by (rule refl)
qed

lemma has_shape_nth: "has_shape a n m \<Longrightarrow> t < n \<Longrightarrow> length (a ! t) = m"
  by (simp add: has_shape_def list_all_length)

lemma grad_term_shape:
  assumes "batch_ok env trig E b"
  shows "has_shape (grad_term env trig b) (num_trigger_tokens env) E"
  using batch_okD(2) [OF assms]
  by (simp add: grad_term_def div_scalar_def sum_dim0_def has_shape_def list_all_length)

lemma grad_term_nth:
  assumes "batch_ok env trig E b" and "t < num_trigger_tokens env" and "e < E"
  shows "grad_term env trig b ! t ! e =
     (\<Sum>example \<leftarrow> trigger_position_grads (backward_grad env b trig) (trigger_mask_of env b).
        example ! t ! e) / of_int (accumulation_steps env)"
  using batch_okD(2) [OF assms(1)] assms(2,3)
  by (simp add: grad_term_def div_scalar_def sum_dim0_def)

lemma iadd_shape:
  assumes "has_shape a n m" and "has_shape c n m"
  shows "\<exists>a'. iadd a c = Inr a' \<and> has_shape a' n m
           \<and> (\<forall>t < n. \<forall>e < m. a' ! t ! e = a ! t ! e + c ! t ! e)"
proof -
  have same: "same_shape a c"
    using assms by (auto simp: same_shape_def has_shape_def list_all_length intro: nth_equalityI)
  have "has_shape (map2 (map2 (+)) a c) n m"
    using assms by (simp add: has_shape_def list_all_length)
  moreover have "\<forall>t < n. \<forall>e < m. map2 (map2 (+)) a c ! t ! e = a ! t ! e + c ! t ! e"
    using assms by (simp add: has_shape_def list_all_length)
  ultimately show ?thesis using same by (simp add: iadd_def)
qed

lemma accumulate_from_some:
  assumes "\<forall>b \<in> set (take n bs). batch_ok env trig E b"
    and "has_shape a (num_trigger_tokens env) E"
  shows "\<exists>a' gs'. accumulate env trig n bs (Some a, gs) = Inr (Some a', gs')
           \<and> has_shape a' (num_trigger_tokens env) E
           \<and> (\<forall>t < num_trigger_tokens env. \<forall>e < E.
                 a' ! t ! e = a ! t ! e + (\<Sum>b \<leftarrow> take n bs. grad_term env trig b ! t ! e))"
  using assms
proof (induction bs arbitrary: n a gs)
  case Nil
  then show ?case by (cases n) simp_all
next
  case (Cons b bs)
  show ?case
  proof (cases n)
    case 0
    with Cons.prems show ?thesis by simp
  next
    case (Suc k)
    have ok: "batch_ok env trig E b" using Cons.prems(1) Suc by simp
    have rest: "\<forall>b \<in> set (take k bs). batch_ok env trig E b" using Cons.prems(1) Suc by simp
    from iadd_shape [OF Cons.prems(2) grad_term_shape [OF ok]]
    obtain a1 where a1: "iadd a (grad_term env trig b) = Inr a1"
      "has_shape a1 (num_trigger_tokens env) E"
      "\<forall>t < num_trigger_tokens env. \<forall>e < E. a1 ! t ! e = a ! t ! e + grad_term env trig b ! t ! e"
      by blast
    from Cons.IH [OF rest a1(2), of "Some (backward_grad env b trig)"]
    obtain a' gs' where r:
      "accumulate env trig k bs (Some a1, Some (backward_grad env b trig)) = Inr (Some a', gs')"
      "has_shape a' (num_trigger_tokens env) E"
      "\<forall>t < num_trigger_tokens env. \<forall>e < E.
         a' ! t ! e = a1 ! t ! e + (\<Sum>b \<leftarrow> take k bs. grad_term env trig b ! t ! e)"
      by blast
    have run: "accumulate env trig n (b # bs) (Some a, gs) = Inr (Some a', gs')"
      unfolding Suc accumulate_step [OF ok] by (simp add: a1(1) r(1))
    have "\<forall>t < num_trigger_tokens env. \<forall>e < E.
        a' ! t ! e = a ! t ! e + (\<Sum>b \<leftarrow> take n (b # bs). grad_term env trig b ! t ! e)"
      using a1(3) r(3) Suc by simp
    with run r(2) show ?thesis by blast
  qed
qed

lemma sum_list_divide_const:
  "(\<Sum>x \<leftarrow> xs. f x / (c::real)) = (\<Sum>x \<leftarrow> xs. f x) / c"
  by (induction xs) (simp_all add: add_divide_distrib)

text \<open>
  C5. Let every batch that the accumulation loop processes be well shaped (the gradient
  has the shape of the trigger mask, every example has \<open>num_trigger_tokens\<close> trigger
  positions, every gradient vector has \<open>E\<close> entries). The loop processes the first
  \<open>accumulation_steps\<close> batches of the iterator, or all of them when there are fewer.
  It returns, and \<open>averaged_grad\<close> is a (\<open>num_trigger_tokens\<close>, \<open>E\<close>) matrix whose
  entries are \<open>1 / accumulation_steps\<close> times the sum, over the processed batches and
  over the examples of each batch, of the gradients that the hook captured at the
  trigger positions: the divisor is \<open>accumulation_steps\<close> also when fewer batches were
  processed. When no batch is processed, \<open>averaged_grad\<close> is still \<open>None\<close>.
\<close>

theorem accumulate_averaged_grad:
  assumes "\<forall>b \<in> set (take (nat (accumulation_steps env)) batches). batch_ok env trig E b"
  shows "\<exists>avg gs.
      accumulate env trig (nat (accumulation_steps env)) batches (None, gs0) = Inr (avg, gs)
    \<and> (if take (nat (accumulation_steps env)) batches = [] then avg = None
       else \<exists>a. avg = Some a \<and> has_shape a (num_trigger_tokens env) E
            \<and> (\<forall>t < num_trigger_tokens env. \<forall>e < E.
                 a ! t ! e =
                   1 / of_int (accumulation_steps env)
                   * (\<Sum>b \<leftarrow> take (nat (accumulation_steps env)) batches.
                        \<Sum>example \<leftarrow> trigger_position_grads (backward_grad env b trig)
                                         (trigger_mask_of env b).
                          example ! t ! e)))"
proof (cases "take (nat (accumulation_steps env)) batches = []")
  case True
  then have "accumulate env trig (nat (accumulation_steps env)) batches (None, gs0)
      = Inr (None, gs0)"
    by (cases "nat (accumulation_steps env)"; cases batches) simp_all
  with True show ?thesis by simp
next
  case False
  let ?n = "nat (accumulation_steps env)"
  let ?T = "num_trigger_tokens env"
  let ?A = "of_int (accumulation_steps env) :: real"
  from False obtain k b bs where n: "?n = Suc k" and bs: "batches = b # bs"
    by (cases ?n; cases batches) simp_all
  have ok: "batch_ok env trig E b" using assms n bs by simp
  have rest: "\<forall>b \<in> set (take k bs). batch_ok env trig E b" using assms n bs by simp
  from accumulate_from_some [OF rest grad_term_shape [OF ok], of "Some (backward_grad env b trig)"]
  obtain a gs where r:
    "accumulate env trig k bs (Some (grad_term env trig b), Some (backward_grad env b trig))
       = Inr (Some a, gs)"
    "has_shape a ?T E"
    "\<forall>t < ?T. \<forall>e < E.
       a ! t ! e = grad_term env trig b ! t ! e + (\<Sum>b \<leftarrow> take k bs. grad_term env trig b ! t ! e)"
    by blast
  have run: "accumulate env trig ?n batches (None, gs0) = Inr (Some a, gs)"
    unfolding n bs accumulate_step [OF ok] by (simp add: r(1))
  have entry: "a ! t ! e =
      1 / ?A * (\<Sum>b \<leftarrow> take ?n batches.
                  \<Sum>example \<leftarrow> trigger_position_grads (backward_grad env b trig)
                                   (trigger_mask_of env b). example ! t ! e)"
    if t: "t < ?T" and e: "e < E" for t e
  proof -
    have "a ! t ! e = (\<Sum>b \<leftarrow> take ?n batches. grad_term env trig b ! t ! e)"
      using r(3) t e by (simp add: n bs)
    also have "\<dots> = (\<Sum>b \<leftarrow> take ?n batches.
        (\<Sum>example \<leftarrow> trigger_position_grads (backward_grad env b trig) (trigger_mask_of env b).
           example ! t ! e) / ?A)"
      using assms t e by (intro arg_cong [where f = sum_list] map_cong refl) (blast intro: grad_term_nth)
    also have "\<dots> = (\<Sum>b \<leftarrow> take ?n batches.
        \<Sum>example \<leftarrow> trigger_position_grads (backward_grad env b trig) (trigger_mask_of env b).
           example ! t ! e) / ?A"
      by (rule sum_list_divide_const)
    finally show ?thesis by simp
  qed
  have "\<exists>a'. Some a = Some a' \<and> has_shape a' ?T E
            \<and> (\<forall>t < ?T. \<forall>e < E.
                 a' ! t ! e =
                   1 / ?A * (\<Sum>b \<leftarrow> take ?n batches.
                        \<Sum>example \<leftarrow> trigger_position_grads (backward_grad env b trig)
                                         (trigger_mask_of env b). example ! t ! e))"
    using r(2) entry by blast
  with run False show ?thesis by simp
qed

lemmas accumulate_defs = hook_def get_def masked_select_def same_shape_def select_row_def
  view3_def sum_dim0_def div_scalar_def iadd_def emb_dim_of_def

text \<open>
  Two accumulation steps over three batches of one example with one trigger position
  (the second) and gradient 2 there: the first two batches are processed and
  \<open>averaged_grad\<close> is \<open>(2 + 2) / 2\<close>.
\<close>

theorem accumulate_averaged_grad_witness:
  "accumulate
     \<lparr>eval_sum = (\<lambda>b t. 0), labels_size = (\<lambda>b. 1),
        backward_grad = (\<lambda>b t. [[[1], [2]]]), trigger_mask_of = (\<lambda>b. [[False, True]]),
        embedding_weight = [[1], [2]], filter_vec = [0, 0], mask_token_id = 0,
        dev_metric_of = (\<lambda>t. 0), accumulation_steps = 2, num_cand = 1,
        num_trigger_tokens = 1, print_lama = False\<rparr>
     [7] 2 [0, 1, 2 :: nat] (None, None)
   = Inr (Some [[2]], Some [[[1], [2]]])
   \<and> [[2 :: real]] ! 0 ! 0 = 1 / of_int 2 * ((0 + 2) + (0 + 2))"
proof -
  let ?env = "\<lparr>eval_sum = (\<lambda>(b::nat) t. 0), labels_size = (\<lambda>b. 1),
        backward_grad = (\<lambda>b t. [[[1], [2]]]), trigger_mask_of = (\<lambda>b. [[False, True]]),
        embedding_weight = [[1], [2]], filter_vec = [0, 0], mask_token_id = 0,
        dev_metric_of = (\<lambda>t. 0), accumulation_steps = 2, num_cand = 1,
        num_trigger_tokens = 1, print_lama = False\<rparr>"
  have h: "\<forall>b \<in> set (take (nat (accumulation_steps ?env)) [0, 1, 2]). batch_ok ?env [7] 1 b"
    by (simp add: batch_ok_def same_shape_def emb_dim_of_def)
  from accumulate_averaged_grad [OF h, of None]
  obtain avg gs where
    run: "accumulate ?env [7] (nat (accumulation_steps ?env)) [0, 1, 2] (None, None) = Inr (avg, gs)"
    by blast
  have val: "accumulate ?env [7] 2 [0, 1, 2] (None, None) = Inr (Some [[2]], Some [[[1], [2]]])"
    by (simp add: numeral_2_eq_2 accumulate_defs)
  with run show ?thesis by simp
qed

section \<open>Properties of the search loop\<close>

lemma topk_length: "topk values k = Inr ids \<Longrightarrow> length ids = nat k"
  by (auto simp: topk_def split: if_splits)

lemma hotflip_attack_length:
  "hotflip_attack g E incr k flt = Inr ids \<Longrightarrow> length ids = nat k"
  by (auto simp: hotflip_attack_def dest: topk_length split: sum.splits)

lemma fold_update_upt:
  "j \<le> length scores \<Longrightarrow>
     fold (\<lambda>i sc. sc[i := sc ! i + g i]) [0 ..< j] scores
       = map (\<lambda>i. if i < j then scores ! i + g i else scores ! i) [0 ..< length scores]"
proof (induction j)
  case 0
  show ?case by (simp add: map_nth)
next
  case (Suc j)
  then have IH: "fold (\<lambda>i sc. sc[i := sc ! i + g i]) [0 ..< j] scores
       = map (\<lambda>i. if i < j then scores ! i + g i else scores ! i) [0 ..< length scores]"
    by simp
  show ?case
    using Suc.prems
    by (simp add: IH) (intro nth_equalityI, simp_all add: nth_list_update less_Suc_eq)
qed

lemma score_candidates_eq:
  assumes "length scores = length candidates"
  shows "score_candidates env trig p candidates batch scores
     = map (\<lambda>i. scores ! i + eval_sum env batch (trig[p := int (candidates ! i)]))
         [0 ..< length candidates]"
  unfolding score_candidates_def
  using fold_update_upt [of "length candidates" scores
      "\<lambda>i. eval_sum env batch (trig[p := int (candidates ! i)])"] assms
  by simp

lemma rescore_eq:
  assumes "length scores = length candidates"
  shows "rescore env trig p candidates n batches (cur, scores, denom)
     = (cur + (\<Sum>b \<leftarrow> take n batches. eval_sum env b trig),
        map (\<lambda>i. scores ! i
               + (\<Sum>b \<leftarrow> take n batches. eval_sum env b (trig[p := int (candidates ! i)])))
          [0 ..< length candidates],
        denom + (\<Sum>b \<leftarrow> take n batches. labels_size env b))"
  using assms
proof (induction batches arbitrary: n cur scores denom)
  case Nil
  have "map (\<lambda>i. scores ! i) [0 ..< length candidates] = scores"
    using Nil by (intro nth_equalityI) simp_all
  then show ?case by (cases n) simp_all
next
  case (Cons b bs)
  show ?case
  proof (cases n)
    case 0
    have "map (\<lambda>i. scores ! i) [0 ..< length candidates] = scores"
      using Cons.prems by (intro nth_equalityI) simp_all
    with 0 show ?thesis by simp
  next
    case (Suc k)
    let ?s1 = "score_candidates env trig p candidates b scores"
    have s1: "?s1 = map (\<lambda>i. scores ! i + eval_sum env b (trig[p := int (candidates ! i)]))
         [0 ..< length candidates]"
      using Cons.prems by (rule score_candidates_eq)
    then have len: "length ?s1 = length candidates" by simp
    show ?thesis
      unfolding Suc rescore.simps Cons.IH [OF len]
      by (simp add: s1 add.assoc)
  qed
qed

lemma argmax_from_max:
  assumes "best < length pre" and "bv = (pre @ xs) ! best" and "\<forall>j < length pre. pre ! j \<le> bv"
  shows "argmax_from xs (length pre) best bv < length (pre @ xs)
     \<and> (\<forall>j < length (pre @ xs). (pre @ xs) ! j \<le> (pre @ xs) ! argmax_from xs (length pre) best bv)"
  using assms
proof (induction xs arbitrary: pre best bv)
  case Nil
  then show ?case by simp
next
  case (Cons x xs)
  show ?case
  proof (cases "bv < x")
    case True
    have "argmax_from xs (length (pre @ [x])) (length pre) x < length ((pre @ [x]) @ xs)
     \<and> (\<forall>j < length ((pre @ [x]) @ xs).
          ((pre @ [x]) @ xs) ! j \<le> ((pre @ [x]) @ xs) ! argmax_from xs (length (pre @ [x])) (length pre) x)"
    proof (rule Cons.IH)
      show "length pre < length (pre @ [x])" by simp
      show "x = ((pre @ [x]) @ xs) ! length pre" by (simp add: nth_append)
      show "\<forall>j < length (pre @ [x]). (pre @ [x]) ! j \<le> x"
        using Cons.prems(3) True by (auto simp: nth_append less_Suc_eq)
    qed
    with True show ?thesis by simp
  next
    case False
    have "argmax_from xs (length (pre @ [x])) best bv < length ((pre @ [x]) @ xs)
     \<and> (\<forall>j < length ((pre @ [x]) @ xs).
          ((pre @ [x]) @ xs) ! j \<le> ((pre @ [x]) @ xs) ! argmax_from xs (length (pre @ [x])) best bv)"
    proof (rule Cons.IH)
      show "best < length (pre @ [x])" using Cons.prems(1) by simp
      show "bv = ((pre @ [x]) @ xs) ! best" using Cons.prems(1,2) by (simp add: nth_append)
      show "\<forall>j < length (pre @ [x]). (pre @ [x]) ! j \<le> bv"
        using Cons.prems(3) False by (auto simp: nth_append less_Suc_eq)
    qed
    with False show ?thesis by simp
  qed
qed

lemma argmax_max:
  assumes "xs \<noteq> []"
  shows "argmax xs < length xs \<and> (\<forall>j < length xs. xs ! j \<le> xs ! argmax xs)"
proof -
  from assms obtain x rest where xs: "xs = x # rest" by (cases xs) auto
  from argmax_from_max [of 0 "[x]" x rest] show ?thesis
    by (simp add: xs argmax_def)
qed

lemma randrange_Inr: "randrange n r = Inr p \<Longrightarrow> 0 < n \<and> p = r mod n"
  by (auto simp: randrange_def split: if_splits)

lemma search_step_cases:
  assumes "search_step env st d = Inr st'"
  obtains g gs candidates where
    "accumulate env (st_trigger_ids st) (nat (accumulation_steps env)) (grad_batches d)
       (None, st_embedding_gradient st) = Inr (Some g, gs)"
    and "0 < num_trigger_tokens env"
    and "rand d mod num_trigger_tokens env < length g"
    and "hotflip_attack (g ! (rand d mod num_trigger_tokens env)) (embedding_weight env) False
           (num_cand env) (Some (filter_vec env)) = Inr candidates"
    and "update_trigger env st gs (eval_batches d) (rand d mod num_trigger_tokens env) candidates
           = Inr st'"
proof -
  from assms obtain x where a0: "accumulate env (st_trigger_ids st)
      (nat (accumulation_steps env)) (grad_batches d) (None, st_embedding_gradient st) = Inr x"
    and k0: "(case x of (averaged_grad, embedding_gradient') \<Rightarrow>
       py_bind (randrange (num_trigger_tokens env) (rand d)) (\<lambda>token_to_flip.
       py_bind (case averaged_grad of
                None \<Rightarrow> Inl TypeError
              | Some g \<Rightarrow> if token_to_flip < length g then Inr (g ! token_to_flip)
                          else Inl IndexError) (\<lambda>grad_row.
       py_bind (hotflip_attack grad_row (embedding_weight env) False (num_cand env)
                (Some (filter_vec env))) (\<lambda>candidates.
       update_trigger env st embedding_gradient' (eval_batches d) token_to_flip candidates))))
      = Inr st'"
    unfolding search_step_def by (rule py_bind_InrE)
  obtain avg gs where x: "x = (avg, gs)" by (cases x)
  from k0 [unfolded x prod.case] obtain p where
    r: "randrange (num_trigger_tokens env) (rand d) = Inr p"
    and k1: "py_bind (case avg of
                None \<Rightarrow> Inl TypeError
              | Some g \<Rightarrow> if p < length g then Inr (g ! p) else Inl IndexError) (\<lambda>grad_row.
       py_bind (hotflip_attack grad_row (embedding_weight env) False (num_cand env)
                (Some (filter_vec env))) (\<lambda>candidates.
       update_trigger env st gs (eval_batches d) p candidates)) = Inr st'"
    by (rule py_bind_InrE)
  from k1 obtain grad_row where
    gr: "(case avg of None \<Rightarrow> Inl TypeError
              | Some g \<Rightarrow> if p < length g then Inr (g ! p) else Inl IndexError) = Inr grad_row"
    and k2: "py_bind (hotflip_attack grad_row (embedding_weight env) False (num_cand env)
                (Some (filter_vec env))) (\<lambda>candidates.
       update_trigger env st gs (eval_batches d) p candidates) = Inr st'"
    by (rule py_bind_InrE)
  from k2 obtain candidates where
    h: "hotflip_attack grad_row (embedding_weight env) False (num_cand env)
              (Some (filter_vec env)) = Inr candidates"
    and u: "update_trigger env st gs (eval_batches d) p candidates = Inr st'"
    by (rule py_bind_InrE)
  from randrange_Inr [OF r] have T: "0 < num_trigger_tokens env"
    and p: "p = rand d mod num_trigger_tokens env" by simp_all
  from gr obtain g where g: "avg = Some g" "p < length g" "grad_row = g ! p"
    by (auto split: option.splits if_splits)
  show thesis
    using that [of g gs candidates] a0 T g h u unfolding p x by simp
qed

lemma update_trigger_cases:
  assumes u: "update_trigger env st gs batches p candidates = Inr st'"
    and len: "length candidates = nat (num_cand env)"
  defines "bs \<equiv> take (nat (accumulation_steps env)) batches"
  defines "score \<equiv> \<lambda>i. \<Sum>b \<leftarrow> bs. eval_sum env b ((st_trigger_ids st)[p := int (candidates ! i)])"
  defines "current \<equiv> effective_current_score env (st_trigger_ids st)
                       (\<Sum>b \<leftarrow> bs. eval_sum env b (st_trigger_ids st))"
  shows "p < length (st_trigger_ids st)"
    and "(\<exists>i < length candidates. score_less current (Fin (score i))) \<Longrightarrow>
           \<exists>best < length candidates. (\<forall>i < length candidates. score i \<le> score best)
              \<and> st_trigger_ids st' = (st_trigger_ids st)[p := int (candidates ! best)]
              \<and> dev_evaluations st' = dev_evaluations st @ [st_trigger_ids st']"
    and "\<not> (\<exists>i < length candidates. score_less current (Fin (score i))) \<Longrightarrow>
           st_trigger_ids st' = st_trigger_ids st \<and> dev_evaluations st' = dev_evaluations st
           \<and> st_best_trigger_ids st' = st_best_trigger_ids st
           \<and> st_best_dev_metric st' = st_best_dev_metric st"
proof -
  let ?n = "length candidates"
  let ?scores = "map score [0 ..< ?n]"
  show pl: "p < length (st_trigger_ids st)"
    using u by (auto simp: update_trigger_def split: if_splits)
  have "rescore env (st_trigger_ids st) p candidates (nat (accumulation_steps env)) batches
          (0, replicate (nat (num_cand env)) 0, 0)
      = (0 + (\<Sum>b \<leftarrow> bs. eval_sum env b (st_trigger_ids st)),
         map (\<lambda>i. replicate (nat (num_cand env)) 0 ! i + score i) [0 ..< ?n],
         0 + (\<Sum>b \<leftarrow> bs. labels_size env b))"
    unfolding bs_def score_def using len by (intro rescore_eq) simp
  moreover have "map (\<lambda>i. replicate (nat (num_cand env)) 0 ! i + score i) [0 ..< ?n] = ?scores"
    using len by (intro map_cong refl) simp
  ultimately have re: "rescore env (st_trigger_ids st) p candidates
        (nat (accumulation_steps env)) batches (0, replicate (nat (num_cand env)) 0, 0)
      = (\<Sum>b \<leftarrow> bs. eval_sum env b (st_trigger_ids st), ?scores, \<Sum>b \<leftarrow> bs. labels_size env b)"
    by simp
  have cur: "effective_current_score env (st_trigger_ids st)
                       (\<Sum>b \<leftarrow> bs. eval_sum env b (st_trigger_ids st)) = current"
    by (simp add: current_def)
  have ex: "list_ex (\<lambda>c. score_less current (Fin c)) ?scores
      \<longleftrightarrow> (\<exists>i < ?n. score_less current (Fin (score i)))"
    by (auto simp: list_ex_iff)
  {
    assume imp: "\<exists>i < ?n. score_less current (Fin (score i))"
    then have ne: "?scores \<noteq> []" by auto
    from argmax_max [OF ne] have best: "argmax ?scores < ?n"
      "\<forall>i < ?n. score i \<le> score (argmax ?scores)"
      by (auto simp del: upt_eq_Nil_conv)
    from u pl imp have "st_trigger_ids st' = (st_trigger_ids st)[p := int (candidates ! argmax ?scores)]
        \<and> dev_evaluations st' = dev_evaluations st @ [st_trigger_ids st']"
      by (auto simp: update_trigger_def re Let_def cur ex)
    with best show "\<exists>best < ?n. (\<forall>i < ?n. score i \<le> score best)
              \<and> st_trigger_ids st' = (st_trigger_ids st)[p := int (candidates ! best)]
              \<and> dev_evaluations st' = dev_evaluations st @ [st_trigger_ids st']"
      by blast
  }
  {
    assume nimp: "\<not> (\<exists>i < ?n. score_less current (Fin (score i)))"
    from u pl nimp show "st_trigger_ids st' = st_trigger_ids st
        \<and> dev_evaluations st' = dev_evaluations st
        \<and> st_best_trigger_ids st' = st_best_trigger_ids st
        \<and> st_best_dev_metric st' = st_best_dev_metric st"
      by (auto simp: update_trigger_def re Let_def cur ex)
  }
qed

lemma effective_current_score_plain:
  "\<not> (print_lama env \<and> mask_token_id env \<in> set trig) \<Longrightarrow>
     score_less (effective_current_score env trig c) (Fin x) \<longleftrightarrow> c < x"
  by (auto simp: effective_current_score_def)

text \<open>
  C1 (as amended). In every iteration that completes, the position \<open>p\<close> drawn by
  \<open>randrange\<close> lies inside the trigger, the trigger keeps its length and every position
  other than \<open>p\<close> keeps its id. The current score is the score of the current trigger
  summed over the re-scoring batches (the first \<open>accumulation_steps\<close> batches of the
  second iterator), except that it is \<open>-inf\<close> when \<open>--print-lama\<close> is set and the trigger
  contains the mask token. If some candidate's score, summed over the same batches,
  strictly exceeds the current score, position \<open>p\<close> is rewritten to a candidate of
  highest summed score and the development set is evaluated with the new trigger;
  otherwise the trigger is unchanged and no development evaluation takes place. When
  \<open>--print-lama\<close> is not set or the trigger holds no mask token, the condition is that
  some candidate's summed score strictly exceeds the current trigger's summed score.
\<close>

theorem search_step_flips_one_position:
  assumes "search_step env st d = Inr st'"
  shows "\<exists>g gs candidates.
      accumulate env (st_trigger_ids st) (nat (accumulation_steps env)) (grad_batches d)
        (None, st_embedding_gradient st) = Inr (Some g, gs)
    \<and> hotflip_attack (g ! (rand d mod num_trigger_tokens env)) (embedding_weight env) False
        (num_cand env) (Some (filter_vec env)) = Inr candidates
    \<and> (let p = rand d mod num_trigger_tokens env;
           trig = st_trigger_ids st;
           bs = take (nat (accumulation_steps env)) (eval_batches d);
           current_sum = (\<Sum>b \<leftarrow> bs. eval_sum env b trig);
           score = (\<lambda>i. \<Sum>b \<leftarrow> bs. eval_sum env b (trig[p := int (candidates ! i)]));
           improved = (\<exists>i < length candidates.
                         score_less (effective_current_score env trig current_sum) (Fin (score i)))
       in p < length trig
        \<and> length (st_trigger_ids st') = length trig
        \<and> (\<forall>q. q \<noteq> p \<longrightarrow> st_trigger_ids st' ! q = trig ! q)
        \<and> (improved \<longrightarrow>
             (\<exists>best < length candidates. (\<forall>i < length candidates. score i \<le> score best)
                \<and> st_trigger_ids st' = trig[p := int (candidates ! best)]
                \<and> dev_evaluations st' = dev_evaluations st @ [st_trigger_ids st']))
        \<and> (\<not> improved \<longrightarrow>
             st_trigger_ids st' = trig \<and> dev_evaluations st' = dev_evaluations st)
        \<and> (\<not> (print_lama env \<and> mask_token_id env \<in> set trig) \<longrightarrow>
             (improved \<longleftrightarrow> (\<exists>i < length candidates. current_sum < score i))))"
proof -
  let ?p = "rand d mod num_trigger_tokens env"
  let ?trig = "st_trigger_ids st"
  let ?bs = "take (nat (accumulation_steps env)) (eval_batches d)"
  let ?cur = "\<Sum>b \<leftarrow> ?bs. eval_sum env b ?trig"
  from assms obtain g gs candidates where
    a: "accumulate env ?trig (nat (accumulation_steps env)) (grad_batches d)
       (None, st_embedding_gradient st) = Inr (Some g, gs)"
    and h: "hotflip_attack (g ! ?p) (embedding_weight env) False
           (num_cand env) (Some (filter_vec env)) = Inr candidates"
    and u: "update_trigger env st gs (eval_batches d) ?p candidates = Inr st'"
    by (rule search_step_cases)
  let ?score = "\<lambda>i. \<Sum>b \<leftarrow> ?bs. eval_sum env b (?trig[?p := int (candidates ! i)])"
  let ?improved = "\<exists>i < length candidates.
      score_less (effective_current_score env ?trig ?cur) (Fin (?score i))"
  have len: "length candidates = nat (num_cand env)"
    using h by (rule hotflip_attack_length)
  note uc = update_trigger_cases [OF u len]
  have pl: "?p < length ?trig" by (rule uc(1))
  have yes: "?improved \<longrightarrow>
             (\<exists>best < length candidates. (\<forall>i < length candidates. ?score i \<le> ?score best)
                \<and> st_trigger_ids st' = ?trig[?p := int (candidates ! best)]
                \<and> dev_evaluations st' = dev_evaluations st @ [st_trigger_ids st'])"
    using uc(2) by blast
  have no: "\<not> ?improved \<longrightarrow>
             st_trigger_ids st' = ?trig \<and> dev_evaluations st' = dev_evaluations st"
    using uc(3) by blast
  have upd: "st_trigger_ids st' = ?trig \<or> (\<exists>v. st_trigger_ids st' = ?trig[?p := v])"
    using yes no by blast
  then have same_len: "length (st_trigger_ids st') = length ?trig" by auto
  from upd have others: "\<forall>q. q \<noteq> ?p \<longrightarrow> st_trigger_ids st' ! q = ?trig ! q" by auto
  have plain: "\<not> (print_lama env \<and> mask_token_id env \<in> set ?trig) \<longrightarrow>
             (?improved \<longleftrightarrow> (\<exists>i < length candidates. ?cur < ?score i))"
    by (simp add: effective_current_score_plain)
  show ?thesis
    unfolding Let_def
    by (intro exI conjI) (rule a h pl same_len others yes no plain)+
qed

text \<open>
  C6. The initial trigger has \<open>num_trigger_tokens\<close> ids: it is the user's initial
  trigger converted to ids, or the mask token id repeated \<open>num_trigger_tokens\<close> times;
  a user-supplied trigger of another length fails the assertion. An iteration that
  completes leaves the trigger's length as it was. Hence after any number of
  iterations of the search the trigger has \<open>num_trigger_tokens\<close> ids.
\<close>

theorem trigger_length_invariant:
  "(\<forall>ids. initial_trigger_ids env n conv init = Inr ids \<longrightarrow>
       length ids = num_trigger_tokens env
     \<and> (ids = replicate (num_trigger_tokens env) (mask_token_id env)
        \<or> (\<exists>tokens. init = Some tokens \<and> tokens \<noteq> [] \<and> ids = map conv tokens)))
   \<and> (\<forall>tokens. init = Some tokens \<and> tokens \<noteq> [] \<and> length tokens \<noteq> num_trigger_tokens env \<longrightarrow>
         initial_trigger_ids env n conv init = Inl AssertionError)
   \<and> (\<forall>st d st'. search_step env st d = Inr st' \<longrightarrow>
         length (st_trigger_ids st') = length (st_trigger_ids st))
   \<and> (\<forall>draws st. run_search env n conv init draws = Inr st \<longrightarrow>
         length (st_trigger_ids st) = num_trigger_tokens env)"
proof (intro conjI allI impI)
  fix ids assume i: "initial_trigger_ids env n conv init = Inr ids"
  then show "length ids = num_trigger_tokens env"
    by (auto simp: initial_trigger_ids_def Let_def split: if_splits)
  from i show "ids = replicate (num_trigger_tokens env) (mask_token_id env)
        \<or> (\<exists>tokens. init = Some tokens \<and> tokens \<noteq> [] \<and> ids = map conv tokens)"
    by (auto simp: initial_trigger_ids_def Let_def split: if_splits)
next
  fix tokens
  assume "init = Some tokens \<and> tokens \<noteq> [] \<and> length tokens \<noteq> num_trigger_tokens env"
  then show "initial_trigger_ids env n conv init = Inl AssertionError"
    by (simp add: initial_trigger_ids_def Let_def)
next
  fix st :: search_state and d :: "'a draw" and st'
  assume s: "search_step env st d = Inr st'"
  then obtain g gs candidates where
    h: "hotflip_attack (g ! (rand d mod num_trigger_tokens env)) (embedding_weight env) False
           (num_cand env) (Some (filter_vec env)) = Inr candidates"
    and u: "update_trigger env st gs (eval_batches d) (rand d mod num_trigger_tokens env)
              candidates = Inr st'"
    by (rule search_step_cases)
  note uc = update_trigger_cases [OF u hotflip_attack_length [OF h]]
  from uc(2,3) have "st_trigger_ids st' = st_trigger_ids st
      \<or> (\<exists>v. st_trigger_ids st' = (st_trigger_ids st)[rand d mod num_trigger_tokens env := v])"
    by blast
  then show "length (st_trigger_ids st') = length (st_trigger_ids st)" by auto
next
  fix draws st
  assume r: "run_search env n conv init draws = Inr st"
  have step: "length (st_trigger_ids s') = length (st_trigger_ids s)"
    if "search_step env s d = Inr s'" for s s' and d :: "'a draw"
  proof -
    from that obtain g gs candidates where
      h: "hotflip_attack (g ! (rand d mod num_trigger_tokens env)) (embedding_weight env) False
             (num_cand env) (Some (filter_vec env)) = Inr candidates"
      and u: "update_trigger env s gs (eval_batches d) (rand d mod num_trigger_tokens env)
                candidates = Inr s'"
      by (rule search_step_cases)
    note uc = update_trigger_cases [OF u hotflip_attack_length [OF h]]
    from uc(2,3) have "st_trigger_ids s' = st_trigger_ids s
        \<or> (\<exists>v. st_trigger_ids s' = (st_trigger_ids s)[rand d mod num_trigger_tokens env := v])"
      by blast
    then show ?thesis by auto
  qed
  have loop: "length (st_trigger_ids s') = length (st_trigger_ids s)"
    if "search_loop env s ds = Inr s'" for s s' ds
    using that
  proof (induction ds arbitrary: s)
    case Nil
    then show ?case by simp
  next
    case (Cons d ds)
    from Cons.prems obtain s1 where s1: "search_step env s d = Inr s1"
      and l: "search_loop env s1 ds = Inr s'"
      by (auto elim: py_bind_InrE)
    from Cons.IH [OF l] step [OF s1] show ?case by simp
  qed
  from r obtain ids where i: "initial_trigger_ids env n conv init = Inr ids"
    and l: "search_loop env
                 \<lparr>st_trigger_ids = ids, st_best_trigger_ids = ids, st_best_dev_metric = NegInf,
                    st_embedding_gradient = GradientStorage_init, dev_evaluations = [ids]\<rparr>
                 draws = Inr st"
    unfolding run_search_def by (rule py_bind_InrE)
  from i have "length ids = num_trigger_tokens env"
    by (auto simp: initial_trigger_ids_def Let_def split: if_splits)
  with loop [OF l] show "length (st_trigger_ids st) = num_trigger_tokens env" by simp
qed

lemmas search_defs = search_step_def update_trigger_def randrange_def hotflip_attack_def
  matmul_def isub_def topk_def dot_def score_candidates_def effective_current_score_def
  argmax_def hook_def get_def masked_select_def same_shape_def select_row_def
  view3_def sum_dim0_def div_scalar_def iadd_def emb_dim_of_def

text \<open>
  C1 as stated fails with \<open>--print-lama\<close> while the trigger still holds the mask token:
  the current score is replaced by \<open>-inf\<close>. Below, every evaluation is 0, so the
  re-scoring loop ends with current score 0 and candidate score 0 (no candidate
  exceeds the current trigger's score), and yet the trigger \<open>[0]\<close> (the mask token) is
  rewritten to the candidate \<open>[1]\<close> and the development set is evaluated.
\<close>

theorem search_step_print_lama_mask:
  "search_step
     \<lparr>eval_sum = (\<lambda>b t. 0), labels_size = (\<lambda>b. 1),
        backward_grad = (\<lambda>b t. [[[1], [2]]]), trigger_mask_of = (\<lambda>b. [[False, True]]),
        embedding_weight = [[2], [1]], filter_vec = [0, 0], mask_token_id = 0,
        dev_metric_of = (\<lambda>t. 0), accumulation_steps = 2, num_cand = 1,
        num_trigger_tokens = 1, print_lama = True\<rparr>
     \<lparr>st_trigger_ids = [0], st_best_trigger_ids = [0], st_best_dev_metric = NegInf,
        st_embedding_gradient = None, dev_evaluations = [[0]]\<rparr>
     \<lparr>grad_batches = [0, 1 :: nat], eval_batches = [0, 1], rand = 0\<rparr>
   = Inr \<lparr>st_trigger_ids = [1], st_best_trigger_ids = [1], st_best_dev_metric = Fin 0,
            st_embedding_gradient = Some [[[1], [2]]], dev_evaluations = [[0], [1]]\<rparr>
   \<and> rescore
       \<lparr>eval_sum = (\<lambda>b t. 0), labels_size = (\<lambda>b. 1),
          backward_grad = (\<lambda>b t. [[[1], [2]]]), trigger_mask_of = (\<lambda>b. [[False, True]]),
          embedding_weight = [[2], [1]], filter_vec = [0, 0], mask_token_id = 0,
          dev_metric_of = (\<lambda>t. 0), accumulation_steps = 2, num_cand = 1,
          num_trigger_tokens = 1, print_lama = True\<rparr>
       [0] 0 [1] 2 [0, 1 :: nat] (0, [0], 0) = (0, [0], 2)"
  by (simp add: search_defs numeral_2_eq_2 upt_rec Let_def)

text \<open>
  An iteration without \<open>--print-lama\<close> in which the candidate scores 2 against 0 for the
  current trigger: the single position is rewritten.
\<close>

theorem search_step_flips_one_position_witness:
  "search_step
     \<lparr>eval_sum = (\<lambda>b t. if t = [1] then 1 else 0), labels_size = (\<lambda>b. 1),
        backward_grad = (\<lambda>b t. [[[1], [2]]]), trigger_mask_of = (\<lambda>b. [[False, True]]),
        embedding_weight = [[2], [1]], filter_vec = [0, 0], mask_token_id = 0,
        dev_metric_of = (\<lambda>t. 0), accumulation_steps = 2, num_cand = 1,
        num_trigger_tokens = 1, print_lama = False\<rparr>
     \<lparr>st_trigger_ids = [0], st_best_trigger_ids = [0], st_best_dev_metric = NegInf,
        st_embedding_gradient = None, dev_evaluations = [[0]]\<rparr>
     \<lparr>grad_batches = [0, 1 :: nat], eval_batches = [0, 1], rand = 0\<rparr>
   = Inr \<lparr>st_trigger_ids = [1], st_best_trigger_ids = [1], st_best_dev_metric = Fin 0,
            st_embedding_gradient = Some [[[1], [2]]], dev_evaluations = [[0], [1]]\<rparr>
   \<and> length [1 :: int] = length [0 :: int]"
proof -
  let ?env = "\<lparr>eval_sum = (\<lambda>(b::nat) t. if t = [1] then 1 else 0), labels_size = (\<lambda>b. 1),
        backward_grad = (\<lambda>b t. [[[1], [2]]]), trigger_mask_of = (\<lambda>b. [[False, True]]),
        embedding_weight = [[2], [1]], filter_vec = [0, 0], mask_token_id = 0,
        dev_metric_of = (\<lambda>t. 0), accumulation_steps = 2, num_cand = 1,
        num_trigger_tokens = 1, print_lama = False\<rparr>"
  let ?st = "\<lparr>st_trigger_ids = [0], st_best_trigger_ids = [0], st_best_dev_metric = NegInf,
        st_embedding_gradient = None, dev_evaluations = [[0]]\<rparr>"
  let ?d = "\<lparr>grad_batches = [0, 1 :: nat], eval_batches = [0, 1], rand = 0\<rparr>"
  let ?st' = "\<lparr>st_trigger_ids = [1], st_best_trigger_ids = [1], st_best_dev_metric = Fin 0,
            st_embedding_gradient = Some [[[1], [2]]], dev_evaluations = [[0], [1]]\<rparr>"
  have val: "search_step ?env ?st ?d = Inr ?st'"
    by (simp add: search_defs numeral_2_eq_2 upt_rec Let_def)
  from search_step_flips_one_position [OF val]
  have "length (st_trigger_ids ?st') = length (st_trigger_ids ?st)"
    unfolding Let_def by (elim exE conjE)
  with val show ?thesis by simp
qed

text \<open>
  A search of two iterations from the mask token: the first rewrites the only position,
  the second finds no better candidate; the trigger has one id throughout.
\<close>

theorem trigger_length_invariant_witness:
  "run_search
     \<lparr>eval_sum = (\<lambda>b t. if t = [1] then 1 else 0), labels_size = (\<lambda>b. 1),
        backward_grad = (\<lambda>b t. [[[1], [2]]]), trigger_mask_of = (\<lambda>b. [[False, True]]),
        embedding_weight = [[2], [1]], filter_vec = [0, 0], mask_token_id = 0,
        dev_metric_of = (\<lambda>t. 0), accumulation_steps = 2, num_cand = 1,
        num_trigger_tokens = 1, print_lama = False\<rparr>
     1 (\<lambda>token. 5) None
     [\<lparr>grad_batches = [0, 1 :: nat], eval_batches = [0, 1], rand = 0\<rparr>,
      \<lparr>grad_batches = [1, 0], eval_batches = [1, 0], rand = 3\<rparr>]
   = Inr \<lparr>st_trigger_ids = [1], st_best_trigger_ids = [1], st_best_dev_metric = Fin 0,
            st_embedding_gradient = Some [[[1], [2]]], dev_evaluations = [[0], [1]]\<rparr>
   \<and> length [1 :: int] = 1"
proof -
  let ?env = "\<lparr>eval_sum = (\<lambda>(b::nat) t. if t = [1] then 1 else 0), labels_size = (\<lambda>b. 1),
        backward_grad = (\<lambda>b t. [[[1], [2]]]), trigger_mask_of = (\<lambda>b. [[False, True]]),
        embedding_weight = [[2], [1]], filter_vec = [0, 0], mask_token_id = 0,
        dev_metric_of = (\<lambda>t. 0), accumulation_steps = 2, num_cand = 1,
        num_trigger_tokens = 1, print_lama = False\<rparr>"
  let ?draws = "[\<lparr>grad_batches = [0, 1 :: nat], eval_batches = [0, 1], rand = 0\<rparr>,
      \<lparr>grad_batches = [1, 0], eval_batches = [1, 0], rand = 3\<rparr>]"
  let ?st' = "\<lparr>st_trigger_ids = [1], st_best_trigger_ids = [1], st_best_dev_metric = Fin 0,
            st_embedding_gradient = Some [[[1], [2]]], dev_evaluations = [[0], [1]]\<rparr>"
  have val: "run_search ?env 1 (\<lambda>token. 5) None ?draws = Inr ?st'"
    by (simp add: run_search_def initial_trigger_ids_def GradientStorage_init_def
        search_defs numeral_2_eq_2 upt_rec Let_def)
  from trigger_length_invariant [of ?env 1 "\<lambda>token. 5" None] val
  have "length (st_trigger_ids ?st') = num_trigger_tokens ?env" by blast
  with val show ?thesis by simp
qed

section \<open>Properties of the --print-lama output\<close>











end
